theory Spec2Isabelle
  imports Complex_Main "HOL-Library.AList" "HOL-Library.Char_ord" "HOL-Library.List_Lexorder"
begin

section \<open>Text\<close>

text \<open>
  Python strings are modelled as HOL strings, a character standing for the code point
  with the same number (0 to 255). \<^verbatim>\<open>str.strip()\<close>, \<^verbatim>\<open>str.isdigit()\<close> and the
  regular-expression class \<^verbatim>\<open>\d\<close> are Python's on the code points 0 to 255.
  \<^verbatim>\<open>str.lower()\<close> is modelled on the ASCII letters; its two uses here, in front of the
  filter \<^verbatim>\<open>[a-z0-9]\<close> and in front of a comparison with an ASCII word, give the same
  result as Python's, since no other character of the range has an ASCII lower case.
\<close>

definition upper_letters :: string where
  "upper_letters = ''ABCDEFGHIJKLMNOPQRSTUVWXYZ''"

definition lower_letters :: string where
  "lower_letters = ''abcdefghijklmnopqrstuvwxyz''"

definition digit_chars :: string where
  "digit_chars = ''0123456789''"

definition lower_char :: "char \<Rightarrow> char" where
  "lower_char c = (case map_of (zip upper_letters lower_letters) c of Some d \<Rightarrow> d | None \<Rightarrow> c)"

definition py_lower :: "string \<Rightarrow> string" where
  "py_lower s = map lower_char s"

text \<open>The character class \<^verbatim>\<open>[a-z0-9]\<close>.\<close>

definition is_lower_alnum :: "char \<Rightarrow> bool" where
  "is_lower_alnum c = (c \<in> set lower_letters \<or> c \<in> set digit_chars)"

text \<open>
  \<^verbatim>\<open>str.upper()\<close> is modelled for ASCII strings only (\<open>is_ascii\<close>): \<open>a\<close>..\<open>z\<close> go to
  \<open>A\<close>..\<open>Z\<close>. Python also changes letters above code point 127 (some to characters
  outside the range, one to two characters), which \<open>py_upper\<close> leaves alone; so every
  statement below about upper-cased procedure codes assumes that the codes are ASCII.
\<close>

definition is_ascii :: "string \<Rightarrow> bool" where
  "is_ascii s = list_all (\<lambda>c. (of_char c :: nat) < 128) s"

definition upper_char :: "char \<Rightarrow> char" where
  "upper_char c = (case map_of (zip lower_letters upper_letters) c of Some d \<Rightarrow> d | None \<Rightarrow> c)"

definition py_upper :: "string \<Rightarrow> string" where
  "py_upper s = map upper_char s"

text \<open>
  \<^verbatim>\<open>str.strip()\<close> removes leading and trailing whitespace: the characters for which
  \<^verbatim>\<open>str.isspace()\<close> holds, which below code point 256 are tab, line feed, vertical
  tab, form feed, carriage return, the separators 0x1C to 0x1F, space, 0x85 and 0xA0.
\<close>

definition whitespace_chars :: string where
  "whitespace_chars = [CHR 0x09, CHR 0x0A, CHR 0x0B, CHR 0x0C, CHR 0x0D, CHR 0x1C, CHR 0x1D,
     CHR 0x1E, CHR 0x1F, CHR 0x20, CHR 0x85, CHR 0xA0]"

definition is_space :: "char \<Rightarrow> bool" where
  "is_space c = (c \<in> set whitespace_chars)"

definition py_strip :: "string \<Rightarrow> string" where
  "py_strip s = rev (dropWhile is_space (rev (dropWhile is_space s)))"

text \<open>
  \<^verbatim>\<open>str.isdigit()\<close>: the string is not empty and every character is a digit; below code
  point 256 these are \<open>0\<close>..\<open>9\<close> and the superscripts 0xB2, 0xB3 and 0xB9.
\<close>

definition is_dec_digit :: "char \<Rightarrow> bool" where
  "is_dec_digit c = (c \<in> set digit_chars)"

definition py_isdigit :: "string \<Rightarrow> bool" where
  "py_isdigit s = (s \<noteq> [] \<and> (\<forall>c\<in>set s. is_dec_digit c \<or> c \<in> set [CHR 0xB2, CHR 0xB3, CHR 0xB9]))"

text \<open>\<^verbatim>\<open>needle in hay\<close> on strings: a contiguous occurrence.\<close>

fun starts_with :: "'a list \<Rightarrow> 'a list \<Rightarrow> bool" where
  "starts_with [] ys = True"
| "starts_with (x # xs) [] = False"
| "starts_with (x # xs) (y # ys) = (x = y \<and> starts_with xs ys)"

fun str_in :: "'a list \<Rightarrow> 'a list \<Rightarrow> bool" where
  "str_in needle [] = (needle = [])"
| "str_in needle (y # ys) = (starts_with needle (y # ys) \<or> str_in needle ys)"

section \<open>Floats\<close>

text \<open>
  A Python float is a finite number, an infinity or NaN. A finite float is modelled by
  the real number it stands for: rounding to 53 bits is not modelled, overflow to an
  infinity is (\<open>to_float\<close>). Both zeros are \<open>Fin 0\<close>.
\<close>

datatype pyfloat = Fin real | PInf | NInf | NaN

text \<open>The least magnitude that rounds to an infinity: the largest double plus half a unit in the last place.\<close>

definition overflow_bound :: real where
  "overflow_bound = 2 ^ 1024 - 2 ^ 970"

definition to_float :: "real \<Rightarrow> pyfloat" where
  "to_float r = (if overflow_bound \<le> r then PInf else if r \<le> - overflow_bound then NInf else Fin r)"

text \<open>\<^verbatim>\<open>math.isfinite\<close>, and the comparisons \<^verbatim>\<open><=\<close>, \<^verbatim>\<open><\<close> and \<^verbatim>\<open>==\<close> of IEEE 754: every comparison with NaN is false.\<close>

fun isfinite :: "pyfloat \<Rightarrow> bool" where
  "isfinite (Fin x) = True"
| "isfinite PInf = False"
| "isfinite NInf = False"
| "isfinite NaN = False"

fun fle :: "pyfloat \<Rightarrow> pyfloat \<Rightarrow> bool" where
  "fle (Fin x) (Fin y) = (x \<le> y)"
| "fle (Fin x) PInf = True"
| "fle (Fin x) NInf = False"
| "fle PInf (Fin y) = False"
| "fle PInf PInf = True"
| "fle PInf NInf = False"
| "fle NInf (Fin y) = True"
| "fle NInf PInf = True"
| "fle NInf NInf = True"
| "fle NaN b = False"
| "fle a NaN = False"


definition feq :: "pyfloat \<Rightarrow> pyfloat \<Rightarrow> bool" where
  "feq a b = (a \<noteq> NaN \<and> a = b)"

fun fneg :: "pyfloat \<Rightarrow> pyfloat" where
  "fneg (Fin x) = Fin (- x)"
| "fneg PInf = NInf"
| "fneg NInf = PInf"
| "fneg NaN = NaN"

subsection \<open>The built-in \<^verbatim>\<open>float(str)\<close>\<close>

text \<open>
  Python's grammar for the argument of \<^verbatim>\<open>float\<close>, after leading and trailing whitespace
  is removed:
  \<^verbatim>\<open>
  sign        ::= "+" | "-"
  infinity    ::= "Infinity" | "inf"
  nan         ::= "nan"
  digitpart   ::= digit (["_"] digit)*
  number      ::= [digitpart] "." digitpart | digitpart ["."]
  exponent    ::= ("e" | "E") [sign] digitpart
  floatnumber ::= number [exponent]
  floatvalue  ::= [sign] (floatnumber | infinity | nan)
  \<close>
  with \<open>inf\<close>, \<open>infinity\<close> and \<open>nan\<close> in any letter case. \<open>py_float\<close> is \<open>None\<close> where
  Python raises \<^verbatim>\<open>ValueError\<close>.
\<close>

definition digit_val :: "char \<Rightarrow> nat" where
  "digit_val c = (case map_of (zip digit_chars [0..<10]) c of Some n \<Rightarrow> n | None \<Rightarrow> 0)"

definition digits_val :: "string \<Rightarrow> nat" where
  "digits_val ds = foldl (\<lambda>n c. 10 * n + digit_val c) 0 ds"

text \<open>\<open>digit_run\<close> reads \<^verbatim>\<open>(["_"] digit)*\<close> and returns the digits and the rest.\<close>

fun digit_run :: "string \<Rightarrow> string \<times> string" where
  "digit_run [] = ([], [])"
| "digit_run [c] = (if is_dec_digit c then ([c], []) else ([], [c]))"
| "digit_run (c # d # cs) =
     (if is_dec_digit c then (case digit_run (d # cs) of (ds, rest) \<Rightarrow> (c # ds, rest))
      else if c = CHR ''_'' \<and> is_dec_digit d then (case digit_run cs of (ds, rest) \<Rightarrow> (d # ds, rest))
      else ([], c # d # cs))"

definition digitpart :: "string \<Rightarrow> (string \<times> string) option" where
  "digitpart s =
     (case s of
        [] \<Rightarrow> None
      | c # cs \<Rightarrow> if is_dec_digit c then (case digit_run cs of (ds, rest) \<Rightarrow> Some (c # ds, rest)) else None)"

text \<open>\<open>parse_number\<close> returns the integer digits, the fraction digits and the rest.\<close>

definition after_point :: "string \<Rightarrow> string option" where
  "after_point s = (case s of [] \<Rightarrow> None | c # cs \<Rightarrow> if c = CHR ''.'' then Some cs else None)"

definition parse_number :: "string \<Rightarrow> (string \<times> string \<times> string) option" where
  "parse_number s =
     (case digitpart s of
        Some (ip, r) \<Rightarrow>
          (case after_point r of
             None \<Rightarrow> Some (ip, [], r)
           | Some r' \<Rightarrow>
               (case digitpart r' of
                  None \<Rightarrow> Some (ip, [], r')
                | Some (fp, r'') \<Rightarrow> Some (ip, fp, r'')))
      | None \<Rightarrow>
          (case after_point s of
             None \<Rightarrow> None
           | Some r' \<Rightarrow>
               (case digitpart r' of
                  None \<Rightarrow> None
                | Some (fp, r'') \<Rightarrow> Some ([], fp, r''))))"

text \<open>\<open>parse_exponent\<close> reads the optional exponent, which must end the string.\<close>

definition signed_digits :: "string \<Rightarrow> int option" where
  "signed_digits s =
     (case s of
        [] \<Rightarrow> None
      | c # cs \<Rightarrow>
          (case digitpart (if c = CHR ''+'' \<or> c = CHR ''-'' then cs else c # cs) of
             Some (ds, []) \<Rightarrow> Some (if c = CHR ''-'' then - int (digits_val ds) else int (digits_val ds))
           | _ \<Rightarrow> None))"

definition parse_exponent :: "string \<Rightarrow> int option" where
  "parse_exponent s =
     (case s of
        [] \<Rightarrow> Some 0
      | c # cs \<Rightarrow> if c = CHR ''e'' \<or> c = CHR ''E'' then signed_digits cs else None)"

definition decimal_value :: "string \<Rightarrow> string \<Rightarrow> int \<Rightarrow> real" where
  "decimal_value ip fp ex =
     (real (digits_val ip) + real (digits_val fp) / 10 ^ length fp) *
     (if 0 \<le> ex then 10 ^ nat ex else 1 / 10 ^ nat (- ex))"

definition unsigned_float :: "string \<Rightarrow> pyfloat option" where
  "unsigned_float s =
     (if py_lower s = ''inf'' \<or> py_lower s = ''infinity'' then Some PInf
      else if py_lower s = ''nan'' then Some NaN
      else (case parse_number s of
              None \<Rightarrow> None
            | Some (ip, fp, rest) \<Rightarrow>
                (case parse_exponent rest of
                   None \<Rightarrow> None
                 | Some ex \<Rightarrow> Some (to_float (decimal_value ip fp ex)))))"

definition py_float :: "string \<Rightarrow> pyfloat option" where
  "py_float s =
     (case py_strip s of
        [] \<Rightarrow> None
      | c # cs \<Rightarrow>
          if c = CHR ''-'' then map_option fneg (unsigned_float cs)
          else if c = CHR ''+'' then unsigned_float cs
          else unsigned_float (c # cs))"

section \<open>Column resolution (parse\_cms\_data.py)\<close>

text \<open>
  \<^verbatim>\<open>
  def normalize_header(header):
      return re.sub(r'[^a-z0-9]', '', header.lower())
  \<close>
\<close>

definition normalize_header :: "string \<Rightarrow> string" where
  "normalize_header header = filter is_lower_alnum (py_lower header)"

text \<open>
  \<^verbatim>\<open>
  def find_column(headers, *patterns):
      normalized = [normalize_header(h) for h in headers]
      for pattern in patterns:
          pattern_norm = normalize_header(pattern)
          for idx, header in enumerate(normalized):
              if not header:
                  continue
              if pattern_norm in header or header in pattern_norm:
                  return idx
      return None
  \<close>
  The inner loop is \<open>scan_headers\<close>, started at index 0; the outer loop is
  \<open>scan_patterns\<close>.
\<close>

fun scan_headers :: "string \<Rightarrow> string list \<Rightarrow> nat \<Rightarrow> nat option" where
  "scan_headers pattern_norm [] idx = None"
| "scan_headers pattern_norm (header # rest) idx =
     (if header = [] then scan_headers pattern_norm rest (Suc idx)
      else if str_in pattern_norm header \<or> str_in header pattern_norm then Some idx
      else scan_headers pattern_norm rest (Suc idx))"

fun scan_patterns :: "string list \<Rightarrow> string list \<Rightarrow> nat option" where
  "scan_patterns normalized [] = None"
| "scan_patterns normalized (pattern # rest) =
     (case scan_headers (normalize_header pattern) normalized 0 of
        Some idx \<Rightarrow> Some idx
      | None \<Rightarrow> scan_patterns normalized rest)"

definition find_column :: "string list \<Rightarrow> string list \<Rightarrow> nat option" where
  "find_column headers patterns = scan_patterns (map normalize_header headers) patterns"

text \<open>The test of the inner loop, on normalized strings.\<close>

definition hit :: "string \<Rightarrow> string \<Rightarrow> bool" where
  "hit pattern_norm header = (header \<noteq> [] \<and> (str_in pattern_norm header \<or> str_in header pattern_norm))"

text \<open>
  The test of the specification, in its words: the normalized pattern is a substring of
  the normalized header, or the normalized header is a substring of the normalized
  pattern. A substring is a contiguous run: \<open>hay = before @ needle @ after\<close>.
\<close>

definition substring_of :: "string \<Rightarrow> string \<Rightarrow> bool" where
  "substring_of needle hay = (\<exists>before after. hay = before @ needle @ after)"

definition spec_matches :: "string \<Rightarrow> string \<Rightarrow> bool" where
  "spec_matches pattern header =
     (substring_of (normalize_header pattern) (normalize_header header) \<or>
      substring_of (normalize_header header) (normalize_header pattern))"

text \<open>What the code tests: the same, on a header whose normalized form is not empty.\<close>

definition col_matches :: "string \<Rightarrow> string \<Rightarrow> bool" where
  "col_matches pattern header = (normalize_header header \<noteq> [] \<and> spec_matches pattern header)"

text \<open>
  The resolver of the specification, in its words: patterns in the supplied order, and
  for each the first header that passes \<open>spec_matches\<close>.
\<close>

fun spec_first_header :: "string \<Rightarrow> string list \<Rightarrow> nat \<Rightarrow> nat option" where
  "spec_first_header pattern [] idx = None"
| "spec_first_header pattern (header # rest) idx =
     (if str_in (normalize_header pattern) (normalize_header header) \<or>
         str_in (normalize_header header) (normalize_header pattern)
      then Some idx else spec_first_header pattern rest (Suc idx))"

fun spec_find_column :: "string list \<Rightarrow> string list \<Rightarrow> nat option" where
  "spec_find_column headers [] = None"
| "spec_find_column headers (pattern # rest) =
     (case spec_first_header pattern headers 0 of
        Some idx \<Rightarrow> Some idx
      | None \<Rightarrow> spec_find_column headers rest)"

section \<open>The GPCI header-row locator (parse\_cms\_data.py)\<close>

text \<open>
  A table is the list of rows \<^verbatim>\<open>csv.reader\<close> returns; a row is a list of cells, each a
  string (never \<^verbatim>\<open>None\<close>, so \<^verbatim>\<open>c or ''\<close> is \<open>c\<close>).
  \<^verbatim>\<open>
  def has_gpci_cols(norm_cells):
      has_pw = any(('pw' in c or 'work' in c) and 'gpci' in c for c in norm_cells)
      has_pe = any(('pe' in c) and 'gpci' in c for c in norm_cells)
      has_mp = any(('mp' in c or 'pl' in c or 'malpractice' in c) and 'gpci' in c for c in norm_cells)
      return has_pw and has_pe and has_mp
  \<close>
\<close>

definition has_gpci_cols :: "string list \<Rightarrow> bool" where
  "has_gpci_cols norm_cells =
     (let has_pw = list_ex (\<lambda>c. (str_in ''pw'' c \<or> str_in ''work'' c) \<and> str_in ''gpci'' c) norm_cells;
          has_pe = list_ex (\<lambda>c. str_in ''pe'' c \<and> str_in ''gpci'' c) norm_cells;
          has_mp = list_ex (\<lambda>c. (str_in ''mp'' c \<or> str_in ''pl'' c \<or> str_in ''malpractice'' c) \<and>
                                   str_in ''gpci'' c) norm_cells
      in has_pw \<and> has_pe \<and> has_mp)"

text \<open>
  The two anchors of a header row, on its normalized cells:
  \<^verbatim>\<open>
  has_locality_number = any(c.startswith('localitynumber') or c in ('localityno',) for c in cells)
  has_locality_name = any(c.startswith('localityname') for c in cells)
  \<close>
\<close>

definition has_anchors :: "string list \<Rightarrow> bool" where
  "has_anchors cells =
     (let has_locality_number =
            list_ex (\<lambda>c. starts_with ''localitynumber'' c \<or> c = ''localityno'') cells;
          has_locality_name = list_ex (\<lambda>c. starts_with ''localityname'' c) cells
      in has_locality_number \<and> has_locality_name)"

text \<open>
  The merge of a split header, one position:
  \<^verbatim>\<open>
  a = (row[j] if j < len(row) else '')
  b = (row2[j] if j < len(row2) else '')
  a_clean = (a or '').strip()
  b_clean = (b or '').strip()
  if (not a_clean) or a_clean.isdigit():
      merged.append(b_clean or a_clean)
  else:
      merged.append(a_clean)
  \<close>
\<close>

definition cell_at :: "string list \<Rightarrow> nat \<Rightarrow> string" where
  "cell_at row j = (if j < length row then row ! j else [])"

definition merge_cell :: "string \<Rightarrow> string \<Rightarrow> string" where
  "merge_cell a b =
     (let a_clean = py_strip a; b_clean = py_strip b
      in if a_clean = [] \<or> py_isdigit a_clean
         then (if b_clean \<noteq> [] then b_clean else a_clean)
         else a_clean)"

definition merge_rows :: "string list \<Rightarrow> string list \<Rightarrow> string list" where
  "merge_rows row row2 =
     (let width = max (length row) (length row2)
      in map (\<lambda>j. merge_cell (cell_at row j) (cell_at row2 j)) [0..<width])"

text \<open>
  \<^verbatim>\<open>
  def extract_gpci_headers(rows, max_scan=80):
      scan_limit = min(max_scan, len(rows))
      for i in range(scan_limit):
          row = rows[i]
          if not row or len(row) < 3:
              continue
          cells = [normalize_header(c or '') for c in row]
          ...
          if not (has_locality_number and has_locality_name):
              continue
          if has_gpci_cols(cells):
              return i, 1, row, i + 1
          if i + 1 < scan_limit:
              row2 = rows[i + 1]
              if row2 and len(row2) >= 3:
                  cells2 = [normalize_header(c or '') for c in row2]
                  if has_gpci_cols(cells2):
                      ...
                      return i, 2, merged, i + 2
      return None
  \<close>
  The loop over \<^verbatim>\<open>range(scan_limit)\<close> is \<open>scan_rows\<close> over the list of indices; every
  index read is below \<open>scan_limit\<close>, which is at most the number of rows. The result is
  (header start index, header line count, headers, data start index).
\<close>

type_synonym header_info = "nat \<times> nat \<times> string list \<times> nat"

fun scan_rows :: "string list list \<Rightarrow> nat \<Rightarrow> nat list \<Rightarrow> header_info option" where
  "scan_rows rows scan_limit [] = None"
| "scan_rows rows scan_limit (i # rest) =
     (let row = rows ! i
      in if length row < 3 then scan_rows rows scan_limit rest
         else if \<not> has_anchors (map normalize_header row) then scan_rows rows scan_limit rest
         else if has_gpci_cols (map normalize_header row) then Some (i, 1, row, i + 1)
         else if i + 1 < scan_limit \<and> 3 \<le> length (rows ! (i + 1)) \<and>
                 has_gpci_cols (map normalize_header (rows ! (i + 1)))
              then Some (i, 2, merge_rows row (rows ! (i + 1)), i + 2)
         else scan_rows rows scan_limit rest)"

definition extract_gpci_headers :: "string list list \<Rightarrow> nat \<Rightarrow> header_info option" where
  "extract_gpci_headers rows max_scan =
     (let scan_limit = min max_scan (length rows) in scan_rows rows scan_limit [0..<scan_limit])"

text \<open>
  The conditions of the locator, named: row \<open>i\<close> is an anchor row, it is a complete
  single-line header, or it is the first line of a split header whose second line is the
  row right after it, inside the scan window.
\<close>

definition anchor_row :: "string list list \<Rightarrow> nat \<Rightarrow> bool" where
  "anchor_row rows i = (3 \<le> length (rows ! i) \<and> has_anchors (map normalize_header (rows ! i)))"

definition single_header :: "string list list \<Rightarrow> nat \<Rightarrow> bool" where
  "single_header rows i = (anchor_row rows i \<and> has_gpci_cols (map normalize_header (rows ! i)))"

definition split_header :: "string list list \<Rightarrow> nat \<Rightarrow> nat \<Rightarrow> bool" where
  "split_header rows scan_limit i =
     (anchor_row rows i \<and> \<not> has_gpci_cols (map normalize_header (rows ! i)) \<and>
      i + 1 < scan_limit \<and> 3 \<le> length (rows ! (i + 1)) \<and>
      has_gpci_cols (map normalize_header (rows ! (i + 1))))"

text \<open>
  The merge of claim C5, in its words: the first row's cell unless it is empty or purely
  numeric, in which case the second row's cell.
\<close>

definition spec_merge_cell :: "string \<Rightarrow> string \<Rightarrow> string" where
  "spec_merge_cell a b =
     (if py_strip a = [] \<or> py_isdigit (py_strip a) then py_strip b else py_strip a)"

text \<open>What one iteration of the loop returns at index \<open>i\<close>, if it returns.\<close>

definition header_at :: "string list list \<Rightarrow> nat \<Rightarrow> nat \<Rightarrow> header_info option" where
  "header_at rows scan_limit i =
     (if single_header rows i then Some (i, 1, rows ! i, i + 1)
      else if split_header rows scan_limit i
           then Some (i, 2, merge_rows (rows ! i) (rows ! (i + 1)), i + 2)
      else None)"

text \<open>A table with a title line and a header split over two lines.\<close>

definition gpci_split_example :: "string list list" where
  "gpci_split_example =
     [[''2019 GPCIs''],
      [''Locality Number'', ''Locality Name'', ''2019 '', '''', ''''],
      ['''', '''', '''', ''PW GPCI'', ''PE GPCI'', ''MP GPCI''],
      [''01'', ''ALABAMA'', '''', ''1.000'', ''0.890'', ''0.600'']]"

section \<open>The RVU snapshot parser (parse\_cms\_data.py)\<close>

text \<open>
  A Python dict is modelled as an association list in insertion order without repeated
  keys: \<^verbatim>\<open>d[k] = v\<close> is \<open>AList.update k v d\<close> (the value is replaced in place, a new key
  goes to the end), \<^verbatim>\<open>d.get(k)\<close> is \<open>map_of d k\<close>.
\<close>

record year_record =
  desc :: string
  work_rvu :: pyfloat
  pe_rvu_fac :: pyfloat
  pe_rvu_nonfac :: pyfloat
  mp_rvu :: pyfloat

type_synonym snapshot = "(string \<times> year_record) list"

text \<open>The pattern lists of \<^verbatim>\<open>parse_rvu_csv\<close>, in the order of the source.\<close>

definition cpt_patterns :: "string list" where
  "cpt_patterns = [''cpt'', ''hcpcs'', ''code'', ''cpt/hcpcs'', ''cpthcpcs'']"

definition desc_patterns :: "string list" where
  "desc_patterns = [''description'', ''desc'', ''descriptor'']"

definition work_patterns :: "string list" where
  "work_patterns = [''work rvu'', ''workrvu'', ''work'']"

definition pe_fac_patterns :: "string list" where
  "pe_fac_patterns = [''pe rvu facility'', ''perfacility'', ''pe fac'', ''facility pe'']"

definition pe_nonfac_patterns :: "string list" where
  "pe_nonfac_patterns = [''pe rvu non-facility'', ''pe rvu nonfacility'', ''penonfacility'',
     ''non-facility pe'', ''nonfacility pe'']"

definition mp_patterns :: "string list" where
  "mp_patterns = [''mp rvu'', ''mprvu'', ''malpractice rvu'', ''malpractice'', ''mp'']"

record rvu_columns =
  cpt_idx :: nat
  desc_idx :: "nat option"
  work_idx :: "nat option"
  pe_fac_idx :: "nat option"
  pe_nonfac_idx :: "nat option"
  mp_idx :: "nat option"

text \<open>\<^verbatim>\<open>re.sub(r'[^\d.\-]', '', val)\<close>: only digits, points and minus signs stay.\<close>

definition clean_numeric :: "string \<Rightarrow> string" where
  "clean_numeric val = filter (\<lambda>c. is_dec_digit c \<or> c = CHR ''.'' \<or> c = CHR ''-'') val"

text \<open>
  \<^verbatim>\<open>
  def safe_float(idx):
      if idx is None or idx >= len(row):
          return 0.0
      try:
          val = row[idx].strip()
          val = re.sub(r'[^\d.\-]', '', val)
          return float(val) if val else 0.0
      except (ValueError, AttributeError):
          return 0.0

  def safe_str(idx):
      if idx is None or idx >= len(row):
          return ""
      return row[idx].strip()
  \<close>
\<close>

definition rvu_safe_float :: "string list \<Rightarrow> nat option \<Rightarrow> pyfloat" where
  "rvu_safe_float row idx =
     (case idx of
        None \<Rightarrow> Fin 0
      | Some i \<Rightarrow>
          if length row \<le> i then Fin 0
          else (let val = clean_numeric (py_strip (row ! i))
                in if val = [] then Fin 0
                   else (case py_float val of None \<Rightarrow> Fin 0 | Some x \<Rightarrow> x)))"

definition rvu_safe_str :: "string list \<Rightarrow> nat option \<Rightarrow> string" where
  "rvu_safe_str row idx =
     (case idx of None \<Rightarrow> [] | Some i \<Rightarrow> if length row \<le> i then [] else py_strip (row ! i))"

text \<open>
  One data row:
  \<^verbatim>\<open>
  if len(row) <= cpt_idx:
      continue
  cpt_code = row[cpt_idx].strip()
  if not cpt_code or cpt_code.lower() in ['cpt', 'code', 'hcpcs']:
      continue
  ...
  rvu_data[cpt_code] = {
      "desc": safe_str(desc_idx),
      "work_rvu": safe_float(work_idx),
      "pe_rvu_fac": safe_float(pe_fac_idx),
      "pe_rvu_nonfac": safe_float(pe_nonfac_idx),
      "mp_rvu": safe_float(mp_idx)
  }
  \<close>
  Nothing in the body raises, so the \<^verbatim>\<open>except\<close> branch that counts skipped rows is never
  taken.
\<close>

definition rvu_record :: "rvu_columns \<Rightarrow> string list \<Rightarrow> year_record" where
  "rvu_record cols row =
     \<lparr>desc = rvu_safe_str row (desc_idx cols),
      work_rvu = rvu_safe_float row (work_idx cols),
      pe_rvu_fac = rvu_safe_float row (pe_fac_idx cols),
      pe_rvu_nonfac = rvu_safe_float row (pe_nonfac_idx cols),
      mp_rvu = rvu_safe_float row (mp_idx cols)\<rparr>"

definition rvu_row_kept :: "rvu_columns \<Rightarrow> string list \<Rightarrow> bool" where
  "rvu_row_kept cols row =
     (cpt_idx cols < length row \<and> py_strip (row ! cpt_idx cols) \<noteq> [] \<and>
      py_lower (py_strip (row ! cpt_idx cols)) \<notin> set [''cpt'', ''code'', ''hcpcs''])"

definition rvu_row_step :: "rvu_columns \<Rightarrow> snapshot \<Rightarrow> string list \<Rightarrow> snapshot" where
  "rvu_row_step cols rvu_data row =
     (if length row \<le> cpt_idx cols then rvu_data
      else (let cpt_code = py_strip (row ! cpt_idx cols)
            in if cpt_code = [] \<or> py_lower cpt_code \<in> set [''cpt'', ''code'', ''hcpcs'']
               then rvu_data
               else AList.update cpt_code (rvu_record cols row) rvu_data))"

definition parse_rvu_rows :: "rvu_columns \<Rightarrow> string list list \<Rightarrow> snapshot" where
  "parse_rvu_rows cols rows = foldl (rvu_row_step cols) [] rows"

text \<open>
  \<^verbatim>\<open>parse_rvu_csv\<close> on the rows of the file: the first row is the header row, the code
  column must resolve (\<^verbatim>\<open>sys.exit(1)\<close> otherwise, and \<^verbatim>\<open>next(reader)\<close> raises on a file
  without rows); both failures are \<open>None\<close>.
\<close>

definition parse_rvu_csv :: "string list list \<Rightarrow> snapshot option" where
  "parse_rvu_csv table =
     (case table of
        [] \<Rightarrow> None
      | headers # rows \<Rightarrow>
          (case find_column headers cpt_patterns of
             None \<Rightarrow> None
           | Some c \<Rightarrow>
               Some (parse_rvu_rows
                 \<lparr>cpt_idx = c,
                  desc_idx = find_column headers desc_patterns,
                  work_idx = find_column headers work_patterns,
                  pe_fac_idx = find_column headers pe_fac_patterns,
                  pe_nonfac_idx = find_column headers pe_nonfac_patterns,
                  mp_idx = find_column headers mp_patterns\<rparr> rows)))"

section \<open>The GPCI parser (parse\_cms\_data.py)\<close>

text \<open>
  \<^verbatim>\<open>
  def safe_float(row, idx):
      if idx is None or idx >= len(row):
          return None
      try:
          val = (row[idx] or '').strip()
          val = re.sub(r'[^\d.\-]', '', val)
          return float(val) if val else None
      except (ValueError, AttributeError):
          return None

  def safe_str(row, idx):
      if idx is None or idx >= len(row):
          return ""
      return (row[idx] or '').strip()
  \<close>
\<close>

definition gpci_safe_float :: "string list \<Rightarrow> nat option \<Rightarrow> pyfloat option" where
  "gpci_safe_float row idx =
     (case idx of
        None \<Rightarrow> None
      | Some i \<Rightarrow>
          if length row \<le> i then None
          else (let val = clean_numeric (py_strip (row ! i))
                in if val = [] then None else py_float val))"

definition gpci_safe_str :: "string list \<Rightarrow> nat option \<Rightarrow> string" where
  "gpci_safe_str row idx =
     (case idx of None \<Rightarrow> [] | Some i \<Rightarrow> if length row \<le> i then [] else py_strip (row ! i))"

text \<open>
  The resolved columns. The five required ones are not \<^verbatim>\<open>None\<close> when the row loop runs
  (the parser exits before it otherwise); they are kept as options, as the source passes
  them to \<^verbatim>\<open>safe_float\<close> and \<^verbatim>\<open>safe_str\<close>.
\<close>

record gpci_columns =
  mac_idx :: "nat option"
  state_idx :: "nat option"
  locality_num_idx :: "nat option"
  locality_name_idx :: "nat option"
  work_gpci_idx :: "nat option"
  pe_gpci_idx :: "nat option"
  mp_gpci_idx :: "nat option"

record gpci_entry =
  g_name :: string
  g_state :: string
  g_locality :: string
  g_work_gpci :: pyfloat
  g_pe_gpci :: pyfloat
  g_mp_gpci :: pyfloat
  g_mac :: "string option"

record gpci_state =
  gpci_data :: "(string \<times> gpci_entry) list"
  skipped :: nat

text \<open>
  The filter in front of the numeric parsing:
  \<^verbatim>\<open>
  if not row:
      continue
  state = safe_str(row, state_idx) if state_idx is not None else ''
  locality_num = safe_str(row, locality_num_idx)
  locality_name = safe_str(row, locality_name_idx)
  # Skip non-data lines / notes
  if not locality_num or not locality_name:
      continue
  if state_idx is not None and not state:
      continue
  if state_idx is not None and normalize_header(state) == 'state':
      continue
  \<close>
\<close>

definition gpci_row_state :: "gpci_columns \<Rightarrow> string list \<Rightarrow> string" where
  "gpci_row_state cols row = (if state_idx cols \<noteq> None then gpci_safe_str row (state_idx cols) else [])"

definition gpci_data_row :: "gpci_columns \<Rightarrow> string list \<Rightarrow> bool" where
  "gpci_data_row cols row =
     (row \<noteq> [] \<and>
      gpci_safe_str row (locality_num_idx cols) \<noteq> [] \<and>
      gpci_safe_str row (locality_name_idx cols) \<noteq> [] \<and>
      \<not> (state_idx cols \<noteq> None \<and> gpci_row_state cols row = []) \<and>
      \<not> (state_idx cols \<noteq> None \<and> normalize_header (gpci_row_state cols row) = ''state''))"

text \<open>
  The rest of the loop body:
  \<^verbatim>\<open>
  if not state:
      state = derive_state_from_name(locality_name)
  work_gpci = safe_float(row, work_gpci_idx)
  pe_gpci = safe_float(row, pe_gpci_idx)
  mp_gpci = safe_float(row, mp_gpci_idx)
  if work_gpci is None or pe_gpci is None or mp_gpci is None:
      skipped += 1
      continue
  locality_key = str(int(float(locality_num))) if locality_num.replace('.', '', 1).isdigit() else locality_num
  key = f"{state}-{locality_key}" if state else f"{locality_name}-{locality_key}"
  gpci_data[key] = {...}
  if mac_idx is not None:
      mac = safe_str(row, mac_idx)
      if mac:
          gpci_data[key]["mac"] = mac
  \<close>
  The state inference \<^verbatim>\<open>derive_state_from_name\<close> and the text of the key,
  \<^verbatim>\<open>locality_key\<close>, play no part in whether a row is kept, skipped or counted; they are
  the parameters \<open>derive_state\<close> (locality name to state code) and \<open>locality_key\<close>
  (locality number to the key's suffix) of the step.
\<close>

definition gpci_row_step ::
  "(string \<Rightarrow> string) \<Rightarrow> (string \<Rightarrow> string) \<Rightarrow> gpci_columns \<Rightarrow> gpci_state \<Rightarrow> string list \<Rightarrow> gpci_state" where
  "gpci_row_step derive_state locality_key cols st row =
     (if \<not> gpci_data_row cols row then st
      else
        (let locality_num = gpci_safe_str row (locality_num_idx cols);
             locality_name = gpci_safe_str row (locality_name_idx cols);
             state0 = gpci_row_state cols row;
             state = (if state0 = [] then derive_state locality_name else state0)
         in case (gpci_safe_float row (work_gpci_idx cols),
                  gpci_safe_float row (pe_gpci_idx cols),
                  gpci_safe_float row (mp_gpci_idx cols)) of
              (Some work_gpci, Some pe_gpci, Some mp_gpci) \<Rightarrow>
                (let key = (if state \<noteq> [] then state @ ''-'' @ locality_key locality_num
                            else locality_name @ ''-'' @ locality_key locality_num);
                     mac = (if mac_idx cols \<noteq> None \<and> gpci_safe_str row (mac_idx cols) \<noteq> []
                            then Some (gpci_safe_str row (mac_idx cols)) else None)
                 in st\<lparr>gpci_data := AList.update key
                          \<lparr>g_name = locality_name, g_state = state, g_locality = locality_num,
                           g_work_gpci = work_gpci, g_pe_gpci = pe_gpci, g_mp_gpci = mp_gpci,
                           g_mac = mac\<rparr> (gpci_data st)\<rparr>)
            | _ \<Rightarrow> st\<lparr>skipped := skipped st + 1\<rparr>))"

definition empty_gpci_state :: gpci_state where
  "empty_gpci_state = \<lparr>gpci_data = [], skipped = 0\<rparr>"

definition parse_gpci_rows ::
  "(string \<Rightarrow> string) \<Rightarrow> (string \<Rightarrow> string) \<Rightarrow> gpci_columns \<Rightarrow> string list list \<Rightarrow> gpci_state" where
  "parse_gpci_rows derive_state locality_key cols data_rows =
     foldl (gpci_row_step derive_state locality_key cols) empty_gpci_state data_rows"

text \<open>
  The reading of a numeric cell that both parsers share: the cell is trimmed, every
  character that is not a digit, a point or a minus sign is removed, and the rest is
  given to \<^verbatim>\<open>float\<close>. The reading is \<open>None\<close> when the column is unresolved, the row
  has no such cell, nothing is left after the cleaning, or \<^verbatim>\<open>float\<close> rejects what is
  left.
\<close>

definition numeric_cell :: "string list \<Rightarrow> nat option \<Rightarrow> pyfloat option" where
  "numeric_cell row idx =
     (case idx of
        None \<Rightarrow> None
      | Some i \<Rightarrow>
          if i < length row
          then (if clean_numeric (py_strip (row ! i)) = [] then None
                else py_float (clean_numeric (py_strip (row ! i))))
          else None)"

text \<open>Columns and rows for the examples: a GPCI table without state column, an RVU table.\<close>

definition gpci_example_cols :: gpci_columns where
  "gpci_example_cols =
     \<lparr>mac_idx = None, state_idx = None, locality_num_idx = Some 0, locality_name_idx = Some 1,
      work_gpci_idx = Some 2, pe_gpci_idx = Some 3, mp_gpci_idx = Some 4\<rparr>"

definition rvu_example_cols :: rvu_columns where
  "rvu_example_cols =
     \<lparr>cpt_idx = 0, desc_idx = Some 1, work_idx = Some 2, pe_fac_idx = Some 3,
      pe_nonfac_idx = Some 4, mp_idx = Some 5\<rparr>"

text \<open>Parameters for the examples: no state is inferred, the key's suffix is the locality number as written.\<close>

definition no_state :: "string \<Rightarrow> string" where
  "no_state locality_name = []"

definition plain_key :: "string \<Rightarrow> string" where
  "plain_key locality_num = locality_num"

section \<open>Snapshot validation (build\_rvu\_timeline.py)\<close>

text \<open>
  What \<^verbatim>\<open>json.load\<close> returns: \<^verbatim>\<open>None\<close>, a bool, an int, a float (Python's parser also
  reads the literals \<^verbatim>\<open>NaN\<close>, \<^verbatim>\<open>Infinity\<close> and \<^verbatim>\<open>-Infinity\<close>), a string, a list, or a dict
  with string keys.
\<close>

datatype json =
    JNull
  | JBool bool
  | JInt int
  | JFloat pyfloat
  | JStr string
  | JArr "json list"
  | JObj "(string \<times> json) list"

datatype py_error = ValueError | OverflowError

definition numeric_fields :: "string list" where
  "numeric_fields = [''work_rvu'', ''pe_rvu_fac'', ''pe_rvu_nonfac'', ''mp_rvu'']"

definition REQUIRED_RVU_FIELDS :: "string list" where
  "REQUIRED_RVU_FIELDS = [''desc'', ''work_rvu'', ''pe_rvu_fac'', ''pe_rvu_nonfac'', ''mp_rvu'']"

text \<open>\<^verbatim>\<open>row.get(k)\<close>: the value, or \<^verbatim>\<open>None\<close> for a key that is absent.\<close>

definition dict_get :: "(string \<times> json) list \<Rightarrow> string \<Rightarrow> json" where
  "dict_get row k = (case map_of row k of None \<Rightarrow> JNull | Some v \<Rightarrow> v)"

text \<open>
  \<^verbatim>\<open>
  def _coerce_float(value: Any) -> float:
      if value is None:
          return 0.0
      if isinstance(value, (int, float)):
          return float(value)
      try:
          return float(str(value).strip())
      except Exception as exc:
          raise ValueError(f"Invalid numeric value: {value!r}") from exc
  \<close>
  A bool is an int in Python. \<^verbatim>\<open>float\<close> of an int that is too large raises
  \<^verbatim>\<open>OverflowError\<close>. The text of a list or of a dict starts with a bracket, so \<^verbatim>\<open>float\<close>
  of it raises.
\<close>

fun coerce_float :: "json \<Rightarrow> py_error + pyfloat" where
  "coerce_float JNull = Inr (Fin 0)"
| "coerce_float (JBool b) = Inr (Fin (if b then 1 else 0))"
| "coerce_float (JInt n) =
     (case to_float (real_of_int n) of Fin x \<Rightarrow> Inr (Fin x) | _ \<Rightarrow> Inl OverflowError)"
| "coerce_float (JFloat x) = Inr x"
| "coerce_float (JStr s) = (case py_float (py_strip s) of None \<Rightarrow> Inl ValueError | Some x \<Rightarrow> Inr x)"
| "coerce_float (JArr xs) = Inl ValueError"
| "coerce_float (JObj kvs) = Inl ValueError"

text \<open>
  \<^verbatim>\<open>str(row.get("desc") or "").strip()\<close>. The text Python prints for a value that is
  neither a string nor false (a number, \<^verbatim>\<open>True\<close>, a list, a dict) is the parameter
  \<open>py_str\<close>.
\<close>

fun truthy :: "json \<Rightarrow> bool" where
  "truthy JNull = False"
| "truthy (JBool b) = b"
| "truthy (JInt n) = (n \<noteq> 0)"
| "truthy (JFloat x) = (x \<noteq> Fin 0)"
| "truthy (JStr s) = (s \<noteq> [])"
| "truthy (JArr xs) = (xs \<noteq> [])"
| "truthy (JObj kvs) = (kvs \<noteq> [])"

definition desc_text :: "(json \<Rightarrow> string) \<Rightarrow> json \<Rightarrow> string" where
  "desc_text py_str v =
     py_strip (if truthy v then (case v of JStr s \<Rightarrow> s | _ \<Rightarrow> py_str v) else [])"

text \<open>
  \<^verbatim>\<open>
  def _validate_year_snapshot(year, data):
      if not isinstance(data, dict):
          raise ValueError(f"Year {year}: expected top-level object (dict)")
      cleaned = {}
      for code, row in data.items():
          if not isinstance(code, str) or not code.strip():
              continue
          if not isinstance(row, dict):
              continue
          missing = [k for k in REQUIRED_RVU_FIELDS if k not in row]
          if missing:
              continue
          cleaned[code.strip().upper()] = {
              "desc": str(row.get("desc") or "").strip(),
              "work_rvu": _coerce_float(row.get("work_rvu")),
              "pe_rvu_fac": _coerce_float(row.get("pe_rvu_fac")),
              "pe_rvu_nonfac": _coerce_float(row.get("pe_rvu_nonfac")),
              "mp_rvu": _coerce_float(row.get("mp_rvu")),
          }
      return cleaned
  \<close>
  The keys of a JSON object are strings. The four conversions run in the order written,
  and the first one that raises ends the function. The key \<^verbatim>\<open>code.strip().upper()\<close> is
  \<open>py_upper (py_strip code)\<close>, which is Python's for an ASCII code.
\<close>

definition coerce_record :: "(json \<Rightarrow> string) \<Rightarrow> (string \<times> json) list \<Rightarrow> py_error + year_record" where
  "coerce_record py_str row =
     (case coerce_float (dict_get row ''work_rvu'') of
        Inl e \<Rightarrow> Inl e
      | Inr w \<Rightarrow>
     (case coerce_float (dict_get row ''pe_rvu_fac'') of
        Inl e \<Rightarrow> Inl e
      | Inr pf \<Rightarrow>
     (case coerce_float (dict_get row ''pe_rvu_nonfac'') of
        Inl e \<Rightarrow> Inl e
      | Inr pn \<Rightarrow>
     (case coerce_float (dict_get row ''mp_rvu'') of
        Inl e \<Rightarrow> Inl e
      | Inr m \<Rightarrow>
          Inr \<lparr>desc = desc_text py_str (dict_get row ''desc''), work_rvu = w, pe_rvu_fac = pf,
               pe_rvu_nonfac = pn, mp_rvu = m\<rparr>))))"

text \<open>A row that passes the checks becomes a record, or the conversion raises.\<close>

definition row_record :: "(json \<Rightarrow> string) \<Rightarrow> json \<Rightarrow> py_error + year_record" where
  "row_record py_str row = (case row of JObj members \<Rightarrow> coerce_record py_str members | _ \<Rightarrow> Inl ValueError)"

definition usable_row :: "string \<Rightarrow> json \<Rightarrow> bool" where
  "usable_row code row =
     (py_strip code \<noteq> [] \<and>
      (case row of JObj members \<Rightarrow> \<forall>k\<in>set REQUIRED_RVU_FIELDS. k \<in> fst ` set members | _ \<Rightarrow> False))"

fun validate_rows :: "(json \<Rightarrow> string) \<Rightarrow> (string \<times> json) list \<Rightarrow> snapshot \<Rightarrow> py_error + snapshot" where
  "validate_rows py_str [] cleaned = Inr cleaned"
| "validate_rows py_str ((code, row) # rest) cleaned =
     (if py_strip code = [] then validate_rows py_str rest cleaned
      else (case row of
              JObj members \<Rightarrow>
                if \<exists>k\<in>set REQUIRED_RVU_FIELDS. k \<notin> fst ` set members
                then validate_rows py_str rest cleaned
                else (case coerce_record py_str members of
                        Inl e \<Rightarrow> Inl e
                      | Inr r \<Rightarrow>
                          validate_rows py_str rest
                            (AList.update (py_upper (py_strip code)) r cleaned))
            | _ \<Rightarrow> validate_rows py_str rest cleaned))"

definition validate_year_snapshot :: "(json \<Rightarrow> string) \<Rightarrow> int \<Rightarrow> json \<Rightarrow> py_error + snapshot" where
  "validate_year_snapshot py_str year data =
     (case data of JObj items \<Rightarrow> validate_rows py_str items [] | _ \<Rightarrow> Inl ValueError)"

section \<open>The timeline merger (build\_rvu\_timeline.py)\<close>

text \<open>
  \<^verbatim>\<open>
  def _nearly_equal(a: float, b: float, tol: float) -> bool:
      if math.isfinite(a) and math.isfinite(b):
          return abs(a - b) <= tol
      return a == b

  def _components_changed(prev, cur, tol) -> bool:
      for k in ("work_rvu", "pe_rvu_fac", "pe_rvu_nonfac", "mp_rvu"):
          if not _nearly_equal(float(prev[k]), float(cur[k]), tol):
              return True
      return False
  \<close>
  The difference of two finite floats is taken exactly. (A difference that overflows to
  an infinity in Python is above every finite tolerance in both readings.)
\<close>

fun nearly_equal :: "pyfloat \<Rightarrow> pyfloat \<Rightarrow> pyfloat \<Rightarrow> bool" where
  "nearly_equal (Fin x) (Fin y) tol = fle (Fin \<bar>x - y\<bar>) tol"
| "nearly_equal a b tol = feq a b"

definition components :: "(year_record \<Rightarrow> pyfloat) list" where
  "components = [work_rvu, pe_rvu_fac, pe_rvu_nonfac, mp_rvu]"

definition components_changed :: "year_record \<Rightarrow> year_record \<Rightarrow> pyfloat \<Rightarrow> bool" where
  "components_changed prev cur tol = list_ex (\<lambda>k. \<not> nearly_equal (k prev) (k cur) tol) components"

text \<open>
  \<^verbatim>\<open>_parse_year_range\<close>: a single year, or \<^verbatim>\<open>start-end\<close> with \<^verbatim>\<open>end >= start\<close>. The
  argument is taken with its numbers already read.
\<close>

datatype years_arg = SingleYear int | YearRange int int

fun parse_year_range :: "years_arg \<Rightarrow> py_error + int list" where
  "parse_year_range (SingleYear year) = Inr [year]"
| "parse_year_range (YearRange start stop) =
     (if stop < start then Inl ValueError else Inr [start..stop])"

text \<open>
  \<^verbatim>\<open>_build_year_inputs\<close> sorts the inputs by year (Python's sort is stable); the loop
  after it fills \<^verbatim>\<open>per_year\<close>:
  \<^verbatim>\<open>
  for yi in year_inputs:
      with yi.path.open("r", encoding="utf-8") as f:
          raw = json.load(f)
      per_year[yi.year] = _validate_year_snapshot(yi.year, raw)
  \<close>
  An input is a year and the JSON value read from its file.
\<close>

type_synonym per_year = "(int \<times> snapshot) list"

definition build_year_inputs :: "(int \<times> 'a) list \<Rightarrow> (int \<times> 'a) list" where
  "build_year_inputs pairs = sort_key fst pairs"

fun load_snapshots :: "(json \<Rightarrow> string) \<Rightarrow> (int \<times> json) list \<Rightarrow> per_year \<Rightarrow> py_error + per_year" where
  "load_snapshots py_str [] per_year = Inr per_year"
| "load_snapshots py_str ((year, raw) # rest) per_year =
     (case validate_year_snapshot py_str year raw of
        Inl e \<Rightarrow> Inl e
      | Inr snap \<Rightarrow> load_snapshots py_str rest (AList.update year snap per_year))"

text \<open>\<^verbatim>\<open>per_year.get(y, {}).get(code)\<close>\<close>

definition year_row :: "per_year \<Rightarrow> int \<Rightarrow> string \<Rightarrow> year_record option" where
  "year_row per_year y code =
     (case map_of per_year y of None \<Rightarrow> None | Some snap \<Rightarrow> map_of snap code)"

text \<open>\<^verbatim>\<open>years_index = {y: i for i, y in enumerate(output_years)}\<close>\<close>

fun index_from :: "nat \<Rightarrow> int list \<Rightarrow> (int \<times> nat) list \<Rightarrow> (int \<times> nat) list" where
  "index_from i [] m = m"
| "index_from i (y # ys) m = index_from (Suc i) ys (AList.update y i m)"

definition years_index :: "int list \<Rightarrow> (int \<times> nat) list" where
  "years_index output_years = index_from 0 output_years []"

datatype status_tag = New | Existing | Modified

text \<open>
  The state of the loop over the output years, for one code:
  \<^verbatim>\<open>
  work = [None] * len(output_years)        (and pe_fac, pe_nonfac, mp, status alike)
  desc_overrides = {}
  prev_row = None
  prev_desc = None
  \<close>
  \<^verbatim>\<open>desc_overrides\<close> is keyed by the year (the source's key is its decimal text).
\<close>

record code_state =
  work :: "pyfloat option list"
  pe_fac :: "pyfloat option list"
  pe_nonfac :: "pyfloat option list"
  mp :: "pyfloat option list"
  status :: "status_tag option list"
  desc_overrides :: "(int \<times> string) list"
  prev_row :: "year_record option"
  prev_desc :: "string option"

definition init_state :: "nat \<Rightarrow> code_state" where
  "init_state n =
     \<lparr>work = replicate n None, pe_fac = replicate n None, pe_nonfac = replicate n None,
      mp = replicate n None, status = replicate n None, desc_overrides = [],
      prev_row = None, prev_desc = None\<rparr>"

text \<open>
  The loop body:
  \<^verbatim>\<open>
  idx = years_index[y]
  row = per_year.get(y, {}).get(code)
  if row is None:
      continue
  work[idx] = float(row["work_rvu"])
  pe_fac[idx] = float(row["pe_rvu_fac"])
  pe_nonfac[idx] = float(row["pe_rvu_nonfac"])
  mp[idx] = float(row["mp_rvu"])
  row_desc = str(row.get("desc") or "")
  if canonical_desc and row_desc and row_desc != canonical_desc:
      desc_overrides[str(y)] = row_desc
  if prev_row is None:
      status[idx] = "new"
  else:
      changed = _components_changed(prev_row, row, tol=float(args.float_tol))
      desc_changed = (prev_desc or "") != row_desc
      status[idx] = "modified" if (changed or desc_changed) else "existing"
  prev_row = row
  prev_desc = row_desc
  \<close>
  The rows are validated records: \<^verbatim>\<open>desc\<close> is a string and the components are floats.
  \<open>y\<close> is one of the output years, so it is a key of \<^verbatim>\<open>years_index\<close>.
\<close>

definition classify :: "year_record option \<Rightarrow> string option \<Rightarrow> year_record \<Rightarrow> pyfloat \<Rightarrow> status_tag" where
  "classify prev prevd row tol =
     (case prev of
        None \<Rightarrow> New
      | Some p \<Rightarrow>
          (let changed = components_changed p row tol;
               desc_changed = ((case prevd of None \<Rightarrow> [] | Some d \<Rightarrow> d) \<noteq> desc row)
           in if changed \<or> desc_changed then Modified else Existing))"

definition year_step ::
  "per_year \<Rightarrow> (int \<times> nat) list \<Rightarrow> string \<Rightarrow> string \<Rightarrow> pyfloat \<Rightarrow> code_state \<Rightarrow> int \<Rightarrow> code_state" where
  "year_step per_year yindex code canonical_desc tol st y =
     (case map_of yindex y of
        None \<Rightarrow> st
      | Some idx \<Rightarrow>
          (case year_row per_year y code of
             None \<Rightarrow> st
           | Some row \<Rightarrow>
               \<lparr>work = (work st)[idx := Some (work_rvu row)],
                pe_fac = (pe_fac st)[idx := Some (pe_rvu_fac row)],
                pe_nonfac = (pe_nonfac st)[idx := Some (pe_rvu_nonfac row)],
                mp = (mp st)[idx := Some (mp_rvu row)],
                status = (status st)[idx := Some (classify (prev_row st) (prev_desc st) row tol)],
                desc_overrides =
                  (if canonical_desc \<noteq> [] \<and> desc row \<noteq> [] \<and> desc row \<noteq> canonical_desc
                   then AList.update y (desc row) (desc_overrides st)
                   else desc_overrides st),
                prev_row = Some row,
                prev_desc = Some (desc row)\<rparr>))"

text \<open>
  \<^verbatim>\<open>
  present_years = [y for y in output_years if y in per_year and code in per_year[y]]
  canonical_desc = ""
  if present_years:
      latest_year = present_years[-1]
      canonical_desc = per_year[latest_year][code]["desc"]
  \<close>
\<close>

definition present_years :: "per_year \<Rightarrow> int list \<Rightarrow> string \<Rightarrow> int list" where
  "present_years per_year output_years code = filter (\<lambda>y. year_row per_year y code \<noteq> None) output_years"

definition canonical_desc :: "per_year \<Rightarrow> int list \<Rightarrow> string \<Rightarrow> string" where
  "canonical_desc per_year output_years code =
     (case present_years per_year output_years code of
        [] \<Rightarrow> []
      | y # ys \<Rightarrow> (case year_row per_year (last (y # ys)) code of None \<Rightarrow> [] | Some r \<Rightarrow> desc r))"

record timeline_entry =
  e_desc :: string
  e_desc_overrides :: "(int \<times> string) list"
  e_work_rvu :: "pyfloat option list"
  e_pe_rvu_fac :: "pyfloat option list"
  e_pe_rvu_nonfac :: "pyfloat option list"
  e_mp_rvu :: "pyfloat option list"
  e_status :: "status_tag option list"

definition code_loop :: "per_year \<Rightarrow> int list \<Rightarrow> pyfloat \<Rightarrow> string \<Rightarrow> code_state" where
  "code_loop per_year output_years tol code =
     foldl (year_step per_year (years_index output_years) code
              (canonical_desc per_year output_years code) tol)
       (init_state (length output_years)) output_years"

definition code_entry :: "per_year \<Rightarrow> int list \<Rightarrow> pyfloat \<Rightarrow> string \<Rightarrow> timeline_entry" where
  "code_entry per_year output_years tol code =
     (let st = code_loop per_year output_years tol code
      in \<lparr>e_desc = canonical_desc per_year output_years code,
          e_desc_overrides = desc_overrides st,
          e_work_rvu = work st, e_pe_rvu_fac = pe_fac st, e_pe_rvu_nonfac = pe_nonfac st,
          e_mp_rvu = mp st, e_status = status st\<rparr>)"

text \<open>
  \<^verbatim>\<open>
  all_codes = set()
  for year, snapshot in per_year.items():
      all_codes.update(snapshot.keys())
  ...
  for code in sorted(all_codes):
      ...
      codes_out[code] = {...}
  \<close>
  The output, without the time stamp and the file names of \<^verbatim>\<open>meta\<close>.
\<close>

definition all_codes :: "per_year \<Rightarrow> string list" where
  "all_codes per_year = remdups (concat (map (\<lambda>(year, snapshot). map fst snapshot) per_year))"

record timeline =
  meta_years :: "int list"
  meta_total_codes :: nat
  meta_missing_years :: "int list"
  codes :: "(string \<times> timeline_entry) list"

definition build_timeline :: "per_year \<Rightarrow> int list \<Rightarrow> pyfloat \<Rightarrow> timeline" where
  "build_timeline per_year output_years tol =
     (let codes_out = map (\<lambda>code. (code, code_entry per_year output_years tol code))
                        (sort (all_codes per_year))
      in \<lparr>meta_years = output_years,
          meta_total_codes = length codes_out,
          meta_missing_years = filter (\<lambda>y. y \<notin> fst ` set per_year) output_years,
          codes = codes_out\<rparr>)"

text \<open>
  \<^verbatim>\<open>main\<close>: the year range is read first (an invalid range ends the run before any file
  is read), then the inputs are sorted and loaded, then the timeline is built.
\<close>

definition main :: "(json \<Rightarrow> string) \<Rightarrow> years_arg \<Rightarrow> (int \<times> json) list \<Rightarrow> pyfloat \<Rightarrow> py_error + timeline" where
  "main py_str years pairs tol =
     (case parse_year_range years of
        Inl e \<Rightarrow> Inl e
      | Inr output_years \<Rightarrow>
          (case load_snapshots py_str (build_year_inputs pairs) [] of
             Inl e \<Rightarrow> Inl e
           | Inr per_year \<Rightarrow> Inr (build_timeline per_year output_years tol)))"

text \<open>A text function for the examples, where every description is a string.\<close>

definition no_text :: "json \<Rightarrow> string" where
  "no_text v = []"

text \<open>The normalized key of a raw code, and a row of four numbers for the examples.\<close>

definition clean_code :: "string \<Rightarrow> string" where
  "clean_code code = py_upper (py_strip code)"

definition example_row :: "json \<Rightarrow> json \<Rightarrow> json" where
  "example_row d w =
     JObj [(''desc'', d), (''work_rvu'', w), (''pe_rvu_fac'', JFloat (Fin 0.55)),
           (''pe_rvu_nonfac'', JInt 1), (''mp_rvu'', JNull)]"

text \<open>A snapshot file in which two keys stand for the same code, and one row lacks its numbers.\<close>

definition repeated_code_example :: json where
  "repeated_code_example =
     JObj [('' g0101 '', example_row (JStr ''old'') (JFloat (Fin 1))),
           (''skip'', JObj [(''desc'', JStr ''no numbers'')]),
           (''G0101'', example_row (JStr '' new '') (JStr '' 2.5 ''))]"

section \<open>The words of the timeline claims\<close>

text \<open>
  The record of the most recent year of a list of years in which the code is present,
  if there is one.
\<close>

definition last_row :: "per_year \<Rightarrow> string \<Rightarrow> int list \<Rightarrow> year_record option" where
  "last_row per_year code years =
     (case present_years per_year years code of
        [] \<Rightarrow> None
      | y # ys \<Rightarrow> year_row per_year (last (y # ys)) code)"





text \<open>The state of the loop for one code after the first \<open>n\<close> output years, said directly.\<close>

definition status_at :: "per_year \<Rightarrow> int list \<Rightarrow> pyfloat \<Rightarrow> string \<Rightarrow> nat \<Rightarrow> status_tag option" where
  "status_at per_year output_years tol code i =
     (case year_row per_year (output_years ! i) code of
        None \<Rightarrow> None
      | Some row \<Rightarrow>
          Some (classify (last_row per_year code (take i output_years))
                  (map_option desc (last_row per_year code (take i output_years))) row tol))"

definition slot_at ::
  "per_year \<Rightarrow> int list \<Rightarrow> string \<Rightarrow> (year_record \<Rightarrow> pyfloat) \<Rightarrow> nat \<Rightarrow> pyfloat option" where
  "slot_at per_year output_years code component i =
     map_option component (year_row per_year (output_years ! i) code)"

definition filled ::
  "nat \<Rightarrow> nat \<Rightarrow> (nat \<Rightarrow> 'a option) \<Rightarrow> 'a option list \<Rightarrow> bool" where
  "filled len n f xs =
     (length xs = len \<and> (\<forall>i<n. xs ! i = f i) \<and> (\<forall>i. n \<le> i \<and> i < len \<longrightarrow> xs ! i = None))"

definition loop_inv :: "per_year \<Rightarrow> int list \<Rightarrow> pyfloat \<Rightarrow> string \<Rightarrow> nat \<Rightarrow> code_state \<Rightarrow> bool" where
  "loop_inv per_year output_years tol code n st =
     (filled (length output_years) n (slot_at per_year output_years code work_rvu) (work st) \<and>
      filled (length output_years) n (slot_at per_year output_years code pe_rvu_fac) (pe_fac st) \<and>
      filled (length output_years) n (slot_at per_year output_years code pe_rvu_nonfac) (pe_nonfac st) \<and>
      filled (length output_years) n (slot_at per_year output_years code mp_rvu) (mp st) \<and>
      filled (length output_years) n (status_at per_year output_years tol code) (status st) \<and>
      prev_row st = last_row per_year code (take n output_years) \<and>
      prev_desc st = map_option desc (last_row per_year code (take n output_years)))"



definition rec_of :: "string \<Rightarrow> pyfloat \<Rightarrow> year_record" where
  "rec_of d w = \<lparr>desc = d, work_rvu = w, pe_rvu_fac = Fin 0.55, pe_rvu_nonfac = Fin 1,
                 mp_rvu = Fin 0\<rparr>"


definition default_tol :: pyfloat where
  "default_tol = Fin 0.0001"


text \<open>
  The override a year is due, given the canonical description: the year's own
  description when the code is present, both descriptions are non-empty and they differ.
\<close>

definition override_of :: "per_year \<Rightarrow> string \<Rightarrow> string \<Rightarrow> int \<Rightarrow> string option" where
  "override_of per_year code canonical y =
     (case year_row per_year y code of
        None \<Rightarrow> None
      | Some r \<Rightarrow> if canonical \<noteq> [] \<and> desc r \<noteq> [] \<and> desc r \<noteq> canonical then Some (desc r) else None)"

text \<open>The canonical descriptions and the override maps of an output, for the examples.\<close>

definition descs_of :: "py_error + timeline \<Rightarrow> (string \<times> string \<times> (int \<times> string) list) list" where
  "descs_of out =
     (case out of
        Inl e \<Rightarrow> []
      | Inr t \<Rightarrow> map (\<lambda>(code, entry). (code, e_desc entry, e_desc_overrides entry)) (codes t))"

definition first_file :: json where
  "first_file = JObj [(''99213'', example_row (JStr ''first wording'') (JInt 1))]"

definition second_file :: json where
  "second_file = JObj [(''99213'', example_row (JStr ''second wording'') (JInt 1))]"

definition blank_file :: json where
  "blank_file = JObj [(''99213'', example_row (JStr '''') (JInt 1))]"

text \<open>A snapshot file whose second row has an integer too large for a float.\<close>

definition large_int_example :: "(string \<times> json) list" where
  "large_int_example =
     [(''99212'', example_row (JStr ''Office visit'') (JInt 1)),
      (''99213'', JObj [(''desc'', JStr ''Office visit''), (''work_rvu'', JFloat (Fin 1.3)),
                        (''pe_rvu_fac'', JInt (10 ^ 400)), (''pe_rvu_nonfac'', JStr ''n/a''),
                        (''mp_rvu'', JNull)]),
      (''99214'', example_row (JStr ''Office visit'') (JStr ''n/a''))]"



text \<open>
  Two files with different wordings of the description, supplied with the later year
  first; a file alone for a year before the output range; and a year with an empty
  description before a year with a wording.
\<close>

definition wording_files :: "(int \<times> json) list" where
  "wording_files = [(2020, second_file), (2019, first_file)]"

definition wording_example :: per_year where
  "wording_example =
     [(2019, [(''99213'', rec_of ''first wording'' (Fin 1))]),
      (2020, [(''99213'', rec_of ''second wording'' (Fin 1))])]"


definition blank_example :: per_year where
  "blank_example =
     [(2019, [(''99213'', rec_of '''' (Fin 1))]),
      (2020, [(''99213'', rec_of ''first wording'' (Fin 1))])]"

section \<open>Properties of the text functions\<close>

lemma starts_with_iff: "starts_with xs ys \<longleftrightarrow> (\<exists>after. ys = xs @ after)"
  by (induction xs ys rule: starts_with.induct) auto

lemma str_in_iff: "str_in needle hay \<longleftrightarrow> (\<exists>before after. hay = before @ needle @ after)"
proof (induction hay)
  case Nil
  show ?case by auto
next
  case (Cons y ys)
  show ?case
  proof
    assume "str_in needle (y # ys)"
    then consider "starts_with needle (y # ys)" | "str_in needle ys" by auto
    then show "\<exists>before after. y # ys = before @ needle @ after"
    proof cases
      case 1
      then obtain after where "y # ys = needle @ after" by (auto simp: starts_with_iff)
      then have "y # ys = [] @ needle @ after" by simp
      then show ?thesis by blast
    next
      case 2
      then obtain before after where "ys = before @ needle @ after" using Cons.IH by auto
      then have "y # ys = (y # before) @ needle @ after" by simp
      then show ?thesis by blast
    qed
  next
    assume "\<exists>before after. y # ys = before @ needle @ after"
    then obtain before after where eq: "y # ys = before @ needle @ after" by auto
    show "str_in needle (y # ys)"
    proof (cases before)
      case Nil
      with eq have "starts_with needle (y # ys)" by (auto simp: starts_with_iff)
      then show ?thesis by simp
    next
      case (Cons b bs)
      with eq have "ys = bs @ needle @ after" by simp
      then have "str_in needle ys" using Cons.IH by auto
      then show ?thesis by simp
    qed
  qed
qed

lemma str_in_substring_of: "str_in needle hay = substring_of needle hay"
  by (simp add: str_in_iff substring_of_def)

text \<open>The overflow bound, written out, for evaluation.\<close>

lemma overflow_bound_numeral [code]:
  "overflow_bound =
     179769313486231580793728971405303415079934132710037826936173778980444968292764750946649017977587207096330286416692887910946555547851940402630657488671505820681908902000708383676273854845817711531764475730270069855571366959622842914819860834936475292719074168444365510704342711559699508093042880177904174497792"
  by (simp add: overflow_bound_def)

subsection \<open>Trimming and upper-casing\<close>

lemma dropWhile_idem: "dropWhile P (dropWhile P xs) = dropWhile P xs"
  by (induction xs) auto

lemma hd_rev_dropWhile_rev:
  "rev (dropWhile P (rev xs)) \<noteq> [] \<Longrightarrow> hd (rev (dropWhile P (rev xs))) = hd xs"
proof (induction xs rule: rev_induct)
  case Nil
  then show ?case by simp
next
  case (snoc x xs)
  show ?case
  proof (cases "P x")
    case True
    with snoc have ne: "rev (dropWhile P (rev xs)) \<noteq> []" by simp
    then have "xs \<noteq> []" by auto
    with True snoc.IH[OF ne] show ?thesis by simp
  next
    case False
    then show ?thesis by simp
  qed
qed

lemma dropWhile_hd: "xs \<noteq> [] \<Longrightarrow> \<not> P (hd xs) \<Longrightarrow> dropWhile P xs = xs"
  by (cases xs) auto

lemma hd_dropWhile_not: "dropWhile P xs \<noteq> [] \<Longrightarrow> \<not> P (hd (dropWhile P xs))"
  by (rule hd_dropWhile)

lemma py_strip_idem: "py_strip (py_strip s) = py_strip s"
proof -
  let ?t = "dropWhile is_space s"
  let ?u = "rev (dropWhile is_space (rev ?t))"
  have u: "py_strip s = ?u" by (simp add: py_strip_def)
  have a: "dropWhile is_space ?u = ?u"
  proof (cases "?u = []")
    case True
    show ?thesis by (simp only: True dropWhile.simps)
  next
    case False
    then have "hd ?u = hd ?t" by (rule hd_rev_dropWhile_rev)
    moreover have "?t \<noteq> []"
    proof
      assume e: "?t = []"
      have "?u = []" by (simp only: e rev.simps dropWhile.simps)
      with False show False by simp
    qed
    then have "\<not> is_space (hd ?t)" by (rule hd_dropWhile)
    ultimately show ?thesis using False by (simp add: dropWhile_hd)
  qed
  have "py_strip ?u = rev (dropWhile is_space (rev (dropWhile is_space ?u)))"
    by (simp add: py_strip_def)
  also have "\<dots> = rev (dropWhile is_space (rev ?u))" by (simp only: a)
  also have "\<dots> = ?u" by (simp add: dropWhile_idem)
  finally show ?thesis by (simp add: u)
qed

lemma upper_char_cases:
  "upper_char c = c \<and> c \<notin> set lower_letters \<or> c \<in> set lower_letters \<and> upper_char c \<in> set upper_letters"
proof (cases "map_of (zip lower_letters upper_letters) c")
  case None
  have len: "length lower_letters = length upper_letters"
    by (simp add: lower_letters_def upper_letters_def)
  from None have "c \<notin> fst ` set (zip lower_letters upper_letters)"
    by (simp add: map_of_eq_None_iff)
  also have "fst ` set (zip lower_letters upper_letters) = set (map fst (zip lower_letters upper_letters))"
    by simp
  also have "\<dots> = set lower_letters" using len by (simp only: map_fst_zip)
  finally have "c \<notin> set lower_letters" .
  with None show ?thesis by (simp add: upper_char_def)
next
  case (Some d)
  then have "(c, d) \<in> set (zip lower_letters upper_letters)" by (rule map_of_SomeD)
  then have "c \<in> set lower_letters" "d \<in> set upper_letters"
    by (auto dest: set_zip_leftD set_zip_rightD)
  with Some show ?thesis by (simp add: upper_char_def)
qed

lemma upper_lower_disjoint: "c \<in> set upper_letters \<Longrightarrow> c \<notin> set lower_letters"
  by (auto simp: upper_letters_def lower_letters_def)

lemma upper_not_space: "c \<in> set upper_letters \<Longrightarrow> \<not> is_space c"
  by (auto simp: upper_letters_def is_space_def whitespace_chars_def)

lemma lower_not_space: "c \<in> set lower_letters \<Longrightarrow> \<not> is_space c"
  by (auto simp: lower_letters_def is_space_def whitespace_chars_def)

lemma upper_char_not_lower: "upper_char c \<notin> set lower_letters"
  using upper_char_cases[of c] upper_lower_disjoint by auto

lemma upper_char_idem: "upper_char (upper_char c) = upper_char c"
  using upper_char_cases[of "upper_char c"] upper_char_not_lower[of c] by auto

lemma is_space_upper_char: "is_space (upper_char c) = is_space c"
  using upper_char_cases[of c] upper_not_space lower_not_space by auto

lemma py_upper_idem: "py_upper (py_upper s) = py_upper s"
  by (simp add: py_upper_def upper_char_idem)

lemma py_upper_no_lower: "set (py_upper s) \<inter> set lower_letters = {}"
  using upper_char_not_lower by (auto simp: py_upper_def)

lemma dropWhile_space_upper:
  "dropWhile is_space (py_upper s) = py_upper (dropWhile is_space s)"
  by (induction s) (auto simp: py_upper_def is_space_upper_char)

lemma py_strip_upper: "py_strip (py_upper s) = py_upper (py_strip s)"
proof -
  have "py_strip (py_upper s) = rev (dropWhile is_space (rev (py_upper (dropWhile is_space s))))"
    by (simp add: py_strip_def dropWhile_space_upper)
  also have "rev (py_upper (dropWhile is_space s)) = py_upper (rev (dropWhile is_space s))"
    by (simp add: py_upper_def rev_map)
  also have "rev (dropWhile is_space (py_upper (rev (dropWhile is_space s)))) =
      py_upper (rev (dropWhile is_space (rev (dropWhile is_space s))))"
    by (simp add: dropWhile_space_upper) (simp add: py_upper_def rev_map)
  finally show ?thesis by (simp add: py_strip_def)
qed

lemma clean_code_props:
  assumes "py_strip code \<noteq> []"
  shows "clean_code code \<noteq> []" "py_strip (clean_code code) = clean_code code"
    "py_upper (clean_code code) = clean_code code"
    "set (clean_code code) \<inter> set lower_letters = {}"
  using assms
  by (simp_all add: clean_code_def py_strip_upper py_strip_idem py_upper_idem py_upper_no_lower)
     (simp add: py_upper_def)

section \<open>The column resolver\<close>

lemma scan_headers_None:
  "scan_headers pn hs k = None \<longleftrightarrow> (\<forall>h\<in>set hs. \<not> hit pn h)"
  by (induction hs arbitrary: k) (auto simp: hit_def)

lemma scan_headers_Some:
  "scan_headers pn hs k = Some i \<longleftrightarrow>
     (\<exists>j<length hs. i = k + j \<and> hit pn (hs ! j) \<and> (\<forall>j'<j. \<not> hit pn (hs ! j')))"
proof (induction hs arbitrary: k)
  case Nil
  show ?case by simp
next
  case (Cons h hs)
  show ?case
  proof (cases "hit pn h")
    case True
    then have "scan_headers pn (h # hs) k = Some k" by (auto simp: hit_def)
    moreover have "(\<exists>j<length (h # hs). i = k + j \<and> hit pn ((h # hs) ! j) \<and> (\<forall>j'<j. \<not> hit pn ((h # hs) ! j'))) \<longleftrightarrow> i = k"
    proof
      assume "\<exists>j<length (h # hs). i = k + j \<and> hit pn ((h # hs) ! j) \<and> (\<forall>j'<j. \<not> hit pn ((h # hs) ! j'))"
      then obtain j where j: "i = k + j" "\<forall>j'<j. \<not> hit pn ((h # hs) ! j')" by blast
      have "j = 0"
      proof (rule ccontr)
        assume "j \<noteq> 0"
        then have "0 < j" by simp
        with j(2) have "\<not> hit pn ((h # hs) ! 0)" by blast
        with True show False by simp
      qed
      with j(1) show "i = k" by simp
    next
      assume "i = k"
      with True show "\<exists>j<length (h # hs). i = k + j \<and> hit pn ((h # hs) ! j) \<and> (\<forall>j'<j. \<not> hit pn ((h # hs) ! j'))"
        by (intro exI[of _ 0]) simp
    qed
    ultimately show ?thesis by auto
  next
    case False
    then have step: "scan_headers pn (h # hs) k = scan_headers pn hs (Suc k)" by (auto simp: hit_def)
    have "(\<exists>j<length (h # hs). i = k + j \<and> hit pn ((h # hs) ! j) \<and> (\<forall>j'<j. \<not> hit pn ((h # hs) ! j')))
       \<longleftrightarrow> (\<exists>j<length hs. i = Suc k + j \<and> hit pn (hs ! j) \<and> (\<forall>j'<j. \<not> hit pn (hs ! j')))"
      (is "?L \<longleftrightarrow> ?R")
    proof
      assume ?L
      then obtain j where j: "j < length (h # hs)" "i = k + j" "hit pn ((h # hs) ! j)"
        "\<forall>j'<j. \<not> hit pn ((h # hs) ! j')" by blast
      from j(3) False obtain m where m: "j = Suc m" by (cases j) auto
      have "\<forall>j'<m. \<not> hit pn (hs ! j')"
      proof (intro allI impI)
        fix j' assume "j' < m"
        then have "Suc j' < j" using m by simp
        with j(4) have "\<not> hit pn ((h # hs) ! Suc j')" by blast
        then show "\<not> hit pn (hs ! j')" by simp
      qed
      with j m show ?R by (intro exI[of _ m]) simp
    next
      assume ?R
      then obtain m where m: "m < length hs" "i = Suc k + m" "hit pn (hs ! m)"
        "\<forall>j'<m. \<not> hit pn (hs ! j')" by blast
      have "\<forall>j'<Suc m. \<not> hit pn ((h # hs) ! j')"
      proof (intro allI impI)
        fix j' assume "j' < Suc m"
        then show "\<not> hit pn ((h # hs) ! j')" using False m(4) by (cases j') auto
      qed
      with m show ?L by (intro exI[of _ "Suc m"]) simp
    qed
    with step Cons.IH[of "Suc k"] show ?thesis by simp
  qed
qed

lemma scan_patterns_None:
  "scan_patterns nz ps = None \<longleftrightarrow> (\<forall>p\<in>set ps. \<forall>h\<in>set nz. \<not> hit (normalize_header p) h)"
proof (induction ps)
  case Nil
  show ?case by simp
next
  case (Cons p ps)
  show ?case
  proof (cases "scan_headers (normalize_header p) nz 0")
    case None
    then have "\<forall>h\<in>set nz. \<not> hit (normalize_header p) h" by (simp add: scan_headers_None)
    with None Cons.IH show ?thesis by simp
  next
    case (Some i0)
    then have "\<not> (\<forall>h\<in>set nz. \<not> hit (normalize_header p) h)"
      using scan_headers_None[of "normalize_header p" nz 0] by simp
    with Some show ?thesis by auto
  qed
qed

lemma scan_patterns_Some:
  "scan_patterns nz ps = Some i \<longleftrightarrow>
     (\<exists>k<length ps. i < length nz \<and> hit (normalize_header (ps ! k)) (nz ! i) \<and>
        (\<forall>j<i. \<not> hit (normalize_header (ps ! k)) (nz ! j)) \<and>
        (\<forall>k'<k. \<forall>j<length nz. \<not> hit (normalize_header (ps ! k')) (nz ! j)))"
proof (induction ps)
  case Nil
  show ?case by simp
next
  case (Cons p ps)
  let ?Q = "\<lambda>qs k. i < length nz \<and> hit (normalize_header (qs ! k)) (nz ! i) \<and>
        (\<forall>j<i. \<not> hit (normalize_header (qs ! k)) (nz ! j)) \<and>
        (\<forall>k'<k. \<forall>j<length nz. \<not> hit (normalize_header (qs ! k')) (nz ! j))"
  show ?case
  proof (cases "scan_headers (normalize_header p) nz 0")
    case None
    then have nohit: "\<forall>j<length nz. \<not> hit (normalize_header p) (nz ! j)"
      by (simp add: scan_headers_None)
    from None have step: "scan_patterns nz (p # ps) = scan_patterns nz ps" by simp
    have "(\<exists>k<length (p # ps). ?Q (p # ps) k) \<longleftrightarrow> (\<exists>k<length ps. ?Q ps k)"
    proof
      assume "\<exists>k<length (p # ps). ?Q (p # ps) k"
      then obtain k where k: "k < length (p # ps)" "?Q (p # ps) k" by blast
      from k(2) nohit obtain m where m: "k = Suc m" by (cases k) auto
      have "\<forall>k'<m. \<forall>j<length nz. \<not> hit (normalize_header (ps ! k')) (nz ! j)"
      proof (intro allI impI)
        fix k' j assume "k' < m" "j < length nz"
        then have "Suc k' < k" using m by simp
        with k(2) \<open>j < length nz\<close> have "\<not> hit (normalize_header ((p # ps) ! Suc k')) (nz ! j)" by blast
        then show "\<not> hit (normalize_header (ps ! k')) (nz ! j)" by simp
      qed
      with k m show "\<exists>k<length ps. ?Q ps k" by (intro exI[of _ m]) simp
    next
      assume "\<exists>k<length ps. ?Q ps k"
      then obtain m where m: "m < length ps" "?Q ps m" by blast
      have "\<forall>k'<Suc m. \<forall>j<length nz. \<not> hit (normalize_header ((p # ps) ! k')) (nz ! j)"
      proof (intro allI impI)
        fix k' j assume "k' < Suc m" "j < length nz"
        then show "\<not> hit (normalize_header ((p # ps) ! k')) (nz ! j)"
          using nohit m(2) by (cases k') auto
      qed
      with m show "\<exists>k<length (p # ps). ?Q (p # ps) k" by (intro exI[of _ "Suc m"]) simp
    qed
    with step Cons.IH show ?thesis by simp
  next
    case (Some i0)
    then have step: "scan_patterns nz (p # ps) = Some i0" by simp
    from Some obtain fst0: "i0 < length nz" "hit (normalize_header p) (nz ! i0)"
      "\<forall>j'<i0. \<not> hit (normalize_header p) (nz ! j')"
      by (auto simp: scan_headers_Some)
    have "(\<exists>k<length (p # ps). ?Q (p # ps) k) \<longleftrightarrow> i = i0"
    proof
      assume "\<exists>k<length (p # ps). ?Q (p # ps) k"
      then obtain k where k: "k < length (p # ps)" "?Q (p # ps) k" by blast
      have "k = 0"
      proof (rule ccontr)
        assume "k \<noteq> 0"
        then have "0 < k" by simp
        with k(2) fst0(1) have "\<not> hit (normalize_header ((p # ps) ! 0)) (nz ! i0)" by blast
        with fst0(2) show False by simp
      qed
      with k(2) have i: "i < length nz" "hit (normalize_header p) (nz ! i)"
        "\<forall>j<i. \<not> hit (normalize_header p) (nz ! j)" by simp_all
      show "i = i0"
      proof (rule ccontr)
        assume "i \<noteq> i0"
        then consider "i < i0" | "i0 < i" by linarith
        then show False
        proof cases
          case 1 with fst0(3) i(2) show False by blast
        next
          case 2 with i(3) fst0(2) show False by blast
        qed
      qed
    next
      assume "i = i0"
      with fst0 show "\<exists>k<length (p # ps). ?Q (p # ps) k" by (intro exI[of _ 0]) simp
    qed
    with step show ?thesis by auto
  qed
qed

lemma hit_col_matches: "hit (normalize_header p) (normalize_header h) = col_matches p h"
  by (auto simp: hit_def col_matches_def spec_matches_def str_in_substring_of)

lemma substring_of_code [code]: "substring_of needle hay = str_in needle hay"
  by (simp add: str_in_substring_of)

text \<open>
  Claim C4, as the code has it. \<open>find_column\<close> normalizes every header, tries the
  patterns in the supplied order and returns the index of the first header whose
  normalized form is not empty and for which the normalized pattern is a substring of the
  normalized header or the normalized header is a substring of the normalized pattern
  (\<open>col_matches\<close>): the index returned belongs to the earliest pattern that matches any
  header, and is the first header matching that pattern. It returns \<open>None\<close> exactly
  when no header with a non-empty normalized form matches any pattern.
\<close>

theorem find_column_first_match:
  "(find_column headers patterns = None \<longleftrightarrow>
      (\<forall>p\<in>set patterns. \<forall>h\<in>set headers. \<not> col_matches p h)) \<and>
   (find_column headers patterns = Some idx \<longleftrightarrow>
      (\<exists>k<length patterns. idx < length headers \<and>
         col_matches (patterns ! k) (headers ! idx) \<and>
         (\<forall>j<idx. \<not> col_matches (patterns ! k) (headers ! j)) \<and>
         (\<forall>k'<k. \<forall>j<length headers. \<not> col_matches (patterns ! k') (headers ! j))))"
proof
  show "find_column headers patterns = None \<longleftrightarrow>
      (\<forall>p\<in>set patterns. \<forall>h\<in>set headers. \<not> col_matches p h)"
    by (simp add: find_column_def scan_patterns_None hit_col_matches)
next
  let ?nz = "map normalize_header headers"
  note conv = hit_col_matches
  show "find_column headers patterns = Some idx \<longleftrightarrow>
      (\<exists>k<length patterns. idx < length headers \<and>
         col_matches (patterns ! k) (headers ! idx) \<and>
         (\<forall>j<idx. \<not> col_matches (patterns ! k) (headers ! j)) \<and>
         (\<forall>k'<k. \<forall>j<length headers. \<not> col_matches (patterns ! k') (headers ! j)))"
    (is "?L \<longleftrightarrow> ?R")
  proof
    assume ?L
    then obtain k where k: "k < length patterns" "idx < length headers"
      "hit (normalize_header (patterns ! k)) (?nz ! idx)"
      "\<forall>j<idx. \<not> hit (normalize_header (patterns ! k)) (?nz ! j)"
      "\<forall>k'<k. \<forall>j<length headers. \<not> hit (normalize_header (patterns ! k')) (?nz ! j)"
      unfolding find_column_def scan_patterns_Some length_map by blast
    have a: "col_matches (patterns ! k) (headers ! idx)" using k(2,3) by (simp add: conv)
    have b: "\<forall>j<idx. \<not> col_matches (patterns ! k) (headers ! j)"
    proof (intro allI impI)
      fix j assume "j < idx"
      then have "j < length headers" using k(2) by simp
      from k(4) \<open>j < idx\<close> have "\<not> hit (normalize_header (patterns ! k)) (?nz ! j)" by blast
      with \<open>j < length headers\<close> show "\<not> col_matches (patterns ! k) (headers ! j)" by (simp add: conv)
    qed
    have c: "\<forall>k'<k. \<forall>j<length headers. \<not> col_matches (patterns ! k') (headers ! j)"
      using k(5) by (simp add: conv)
    from k(1,2) a b c show ?R by blast
  next
    assume ?R
    then obtain k where k: "k < length patterns" "idx < length headers"
      "col_matches (patterns ! k) (headers ! idx)"
      "\<forall>j<idx. \<not> col_matches (patterns ! k) (headers ! j)"
      "\<forall>k'<k. \<forall>j<length headers. \<not> col_matches (patterns ! k') (headers ! j)"
      by blast
    have a: "hit (normalize_header (patterns ! k)) (?nz ! idx)" using k(2,3) by (simp add: conv)
    have b: "\<forall>j<idx. \<not> hit (normalize_header (patterns ! k)) (?nz ! j)"
    proof (intro allI impI)
      fix j assume "j < idx"
      then have "j < length headers" using k(2) by simp
      from k(4) \<open>j < idx\<close> have "\<not> col_matches (patterns ! k) (headers ! j)" by blast
      with \<open>j < length headers\<close> show "\<not> hit (normalize_header (patterns ! k)) (?nz ! j)" by (simp add: conv)
    qed
    have c: "\<forall>k'<k. \<forall>j<length headers. \<not> hit (normalize_header (patterns ! k')) (?nz ! j)"
      using k(5) by (simp add: conv)
    from k(1,2) a b c show ?L
      unfolding find_column_def scan_patterns_Some length_map by blast
  qed
qed


text \<open>
  The theorem at three headers and three patterns: \<open>cpt\<close> matches no header, and
  \<open>hcpcs\<close> matches the second header first.
\<close>

theorem find_column_first_match_witness:
  "find_column [''Mod'', ''HCPCS'', ''Description''] [''cpt'', ''hcpcs'', ''code''] = Some 1 \<and>
   col_matches ''hcpcs'' ''HCPCS'' \<and> \<not> col_matches ''hcpcs'' ''Mod'' \<and>
   \<not> col_matches ''cpt'' ''Mod'' \<and> \<not> col_matches ''cpt'' ''HCPCS'' \<and>
   \<not> col_matches ''cpt'' ''Description''"
proof -
  have e: "find_column [''Mod'', ''HCPCS'', ''Description''] [''cpt'', ''hcpcs'', ''code''] = Some 1"
    by code_simp
  have m: "col_matches ''hcpcs'' ''HCPCS''" "\<not> col_matches ''hcpcs'' ''Mod''"
    "\<not> col_matches ''cpt'' ''Mod''" "\<not> col_matches ''cpt'' ''HCPCS''"
    "\<not> col_matches ''cpt'' ''Description''"
    by code_simp+
  from find_column_first_match[of "[''Mod'', ''HCPCS'', ''Description'']" "[''cpt'', ''hcpcs'', ''code'']" 1] e m
  show ?thesis by blast
qed

text \<open>
  Claim C4 as stated fails on a header whose normalized form is empty (an empty cell, or
  one of punctuation only): the empty string is a substring of every pattern, so the
  stated test picks that header, while the code skips it. With such a header alone the
  code returns \<open>None\<close> although the stated test is passed.
\<close>

theorem find_column_empty_header_counterexample:
  "find_column [''-'', ''CPT''] [''cpt''] = Some 1 \<and>
   spec_find_column [''-'', ''CPT''] [''cpt''] = Some 0 \<and>
   spec_matches ''cpt'' ''-'' \<and>
   find_column [''-''] [''cpt''] = None"
  by code_simp
section \<open>Symmetry of the column test\<close>

lemma find_column_single:
  "find_column [h] [p] = (if col_matches p h then Some 0 else None)"
  by (auto simp: find_column_def col_matches_def spec_matches_def str_in_substring_of)

text \<open>
  Claim C9, as the code has it. The test of the resolver is symmetric in header and
  pattern: for a header and a pattern whose normalized forms are both non-empty,
  resolving the one-header list against the pattern gives the same result as resolving
  with the two strings exchanged: column 0 when one normalized string is a substring of
  the other, whichever of them is the longer, and unresolved otherwise.
\<close>

theorem find_column_symmetric:
  "normalize_header h \<noteq> [] \<Longrightarrow> normalize_header p \<noteq> [] \<Longrightarrow>
   find_column [h] [p] = find_column [p] [h] \<and>
   (find_column [h] [p] = Some 0 \<longleftrightarrow> spec_matches p h) \<and>
   (find_column [h] [p] = None \<longleftrightarrow> \<not> spec_matches p h)"
  by (auto simp: find_column_single col_matches_def spec_matches_def)

text \<open>The theorem at the header \<open>Non-Facility PE RVU\<close>, which the pattern does match.\<close>

theorem find_column_symmetric_witness:
  "normalize_header ''Non-Facility PE RVU'' \<noteq> [] \<and> normalize_header ''non-facility pe'' \<noteq> [] \<and>
   find_column [''Non-Facility PE RVU''] [''non-facility pe''] = Some 0 \<and>
   find_column [''non-facility pe''] [''Non-Facility PE RVU''] = Some 0"
proof -
  have a: "normalize_header ''Non-Facility PE RVU'' \<noteq> []" by code_simp
  have b: "normalize_header ''non-facility pe'' \<noteq> []" by code_simp
  have c: "find_column [''Non-Facility PE RVU''] [''non-facility pe''] = Some 0" by code_simp
  from find_column_symmetric[OF a b] a b c show ?thesis by simp
qed

text \<open>
  Claim C9 as stated fails on its own pair: the header \<open>PE RVU Non-Facility\<close> and the
  pattern \<open>non-facility pe\<close> normalize to \<open>pervunonfacility\<close> and \<open>nonfacilitype\<close>, and
  neither is a substring of the other, so the pair resolves to no column in either
  direction. In the parser that header is found by the earlier pattern
  \<open>pe rvu non-facility\<close> of the list.
\<close>

theorem non_facility_pair_counterexample:
  "normalize_header ''PE RVU Non-Facility'' = ''pervunonfacility'' \<and>
   normalize_header ''non-facility pe'' = ''nonfacilitype'' \<and>
   find_column [''PE RVU Non-Facility''] [''non-facility pe''] = None \<and>
   find_column [''non-facility pe''] [''PE RVU Non-Facility''] = None \<and>
   find_column [''PE RVU Non-Facility''] pe_nonfac_patterns = Some 0"
  by code_simp

section \<open>The GPCI header-row locator\<close>

lemma scan_rows_Cons:
  "scan_rows rows L (i # rest) =
     (case header_at rows L i of Some r \<Rightarrow> Some r | None \<Rightarrow> scan_rows rows L rest)"
  by (auto simp: header_at_def single_header_def split_header_def anchor_row_def Let_def)

lemma scan_rows_None:
  "scan_rows rows L idxs = None \<longleftrightarrow> (\<forall>i\<in>set idxs. header_at rows L i = None)"
  by (induction idxs) (auto simp: scan_rows_Cons simp del: scan_rows.simps(2) split: option.splits)

lemma scan_rows_Some:
  "scan_rows rows L idxs = Some r \<longleftrightarrow>
     (\<exists>k<length idxs. header_at rows L (idxs ! k) = Some r \<and>
        (\<forall>j<k. header_at rows L (idxs ! j) = None))"
proof (induction idxs)
  case Nil
  show ?case by simp
next
  case (Cons i rest)
  show ?case
  proof (cases "header_at rows L i")
    case None
    have "(\<exists>k<length (i # rest). header_at rows L ((i # rest) ! k) = Some r \<and>
            (\<forall>j<k. header_at rows L ((i # rest) ! j) = None)) \<longleftrightarrow>
          (\<exists>k<length rest. header_at rows L (rest ! k) = Some r \<and>
            (\<forall>j<k. header_at rows L (rest ! j) = None))" (is "?L \<longleftrightarrow> ?R")
    proof
      assume ?L
      then obtain k where k: "k < length (i # rest)" "header_at rows L ((i # rest) ! k) = Some r"
        "\<forall>j<k. header_at rows L ((i # rest) ! j) = None" by blast
      from k(2) None obtain m where m: "k = Suc m" by (cases k) auto
      have "\<forall>j<m. header_at rows L (rest ! j) = None"
      proof (intro allI impI)
        fix j assume "j < m"
        then have "Suc j < k" using m by simp
        with k(3) have "header_at rows L ((i # rest) ! Suc j) = None" by blast
        then show "header_at rows L (rest ! j) = None" by simp
      qed
      with k m show ?R by (intro exI[of _ m]) simp
    next
      assume ?R
      then obtain m where m: "m < length rest" "header_at rows L (rest ! m) = Some r"
        "\<forall>j<m. header_at rows L (rest ! j) = None" by blast
      have "\<forall>j<Suc m. header_at rows L ((i # rest) ! j) = None"
      proof (intro allI impI)
        fix j assume "j < Suc m"
        then show "header_at rows L ((i # rest) ! j) = None" using None m(3) by (cases j) auto
      qed
      with m show ?L by (intro exI[of _ "Suc m"]) simp
    qed
    with None Cons.IH show ?thesis by (simp add: scan_rows_Cons del: scan_rows.simps(2))
  next
    case (Some r0)
    have "(\<exists>k<length (i # rest). header_at rows L ((i # rest) ! k) = Some r \<and>
            (\<forall>j<k. header_at rows L ((i # rest) ! j) = None)) \<longleftrightarrow> r = r0"
    proof
      assume "\<exists>k<length (i # rest). header_at rows L ((i # rest) ! k) = Some r \<and>
            (\<forall>j<k. header_at rows L ((i # rest) ! j) = None)"
      then obtain k where k: "header_at rows L ((i # rest) ! k) = Some r"
        "\<forall>j<k. header_at rows L ((i # rest) ! j) = None" by blast
      have "k = 0"
      proof (rule ccontr)
        assume "k \<noteq> 0"
        then have "0 < k" by simp
        with k(2) have "header_at rows L ((i # rest) ! 0) = None" by blast
        with Some show False by simp
      qed
      with k(1) Some show "r = r0" by simp
    next
      assume "r = r0"
      with Some show "\<exists>k<length (i # rest). header_at rows L ((i # rest) ! k) = Some r \<and>
            (\<forall>j<k. header_at rows L ((i # rest) ! j) = None)"
        by (intro exI[of _ 0]) simp
    qed
    with Some show ?thesis by (auto simp add: scan_rows_Cons simp del: scan_rows.simps(2))
  qed
qed

lemma header_at_None:
  "header_at rows L i = None \<longleftrightarrow> (\<not> single_header rows i \<and> \<not> split_header rows L i)"
  by (simp add: header_at_def)

lemma header_at_Some:
  "header_at rows L i = Some r \<longleftrightarrow>
     (single_header rows i \<and> r = (i, 1, rows ! i, i + 1) \<or>
      split_header rows L i \<and> r = (i, 2, merge_rows (rows ! i) (rows ! (i + 1)), i + 2))"
  by (auto simp: header_at_def split_header_def single_header_def)

lemma merge_rows_length: "length (merge_rows row row2) = max (length row) (length row2)"
  by (simp add: merge_rows_def Let_def)

lemma merge_rows_nth:
  "j < max (length row) (length row2) \<Longrightarrow>
   merge_rows row row2 ! j = merge_cell (cell_at row j) (cell_at row2 j)"
  by (simp add: merge_rows_def Let_def)

lemma merge_cell_spec:
  "merge_cell a b =
     (if py_isdigit (py_strip a) \<and> py_strip b = [] then py_strip a else spec_merge_cell a b)"
  by (auto simp: merge_cell_def spec_merge_cell_def Let_def)

lemma py_isdigit_code [code]:
  "py_isdigit s =
     (s \<noteq> [] \<and> list_all (\<lambda>c. is_dec_digit c \<or> c \<in> set [CHR 0xB2, CHR 0xB3, CHR 0xB9]) s)"
  by (simp add: py_isdigit_def list_all_iff)

text \<open>
  Claim C5, as the code has it. The locator scans the first \<open>min max_scan (length rows)\<close>
  rows. It stops at the first row \<open>i\<close> that is a single-line header (at least three cells,
  both anchors, all three GPCI columns) or the first line of a split header: at least
  three cells and both anchors but not all GPCI columns, while the row right after it,
  \<open>i + 1\<close>, and no other, lies inside the scan window, has at least three cells and has
  the GPCI columns. For a split header the two rows are merged position by position over
  the longer of the two: the trimmed cell of the first row, unless that is empty or purely
  numeric, in which case the trimmed cell of the second row; only where the first row's
  cell is purely numeric and the second row's cell is empty does the numeric cell of the
  first row stay. The locator reports failure exactly when no row of the window
  qualifies.
\<close>

theorem extract_gpci_headers_locates:
  "(extract_gpci_headers rows max_scan = None \<longleftrightarrow>
      (\<forall>i<min max_scan (length rows).
         \<not> single_header rows i \<and> \<not> split_header rows (min max_scan (length rows)) i)) \<and>
   (extract_gpci_headers rows max_scan = Some r \<longleftrightarrow>
      (\<exists>i<min max_scan (length rows).
         (\<forall>j<i. \<not> single_header rows j \<and> \<not> split_header rows (min max_scan (length rows)) j) \<and>
         (single_header rows i \<and> r = (i, 1, rows ! i, i + 1) \<or>
          split_header rows (min max_scan (length rows)) i \<and>
          r = (i, 2, merge_rows (rows ! i) (rows ! (i + 1)), i + 2)))) \<and>
   length (merge_rows row row2) = max (length row) (length row2) \<and>
   (\<forall>j<max (length row) (length row2).
      merge_rows row row2 ! j =
        (if py_isdigit (py_strip (cell_at row j)) \<and> py_strip (cell_at row2 j) = []
         then py_strip (cell_at row j)
         else spec_merge_cell (cell_at row j) (cell_at row2 j)))"
proof (intro conjI)
  let ?L = "min max_scan (length rows)"
  show "extract_gpci_headers rows max_scan = None \<longleftrightarrow>
      (\<forall>i<?L. \<not> single_header rows i \<and> \<not> split_header rows ?L i)"
    by (auto simp add: extract_gpci_headers_def Let_def scan_rows_None header_at_None simp del: scan_rows.simps(2))
  show "extract_gpci_headers rows max_scan = Some r \<longleftrightarrow>
      (\<exists>i<?L. (\<forall>j<i. \<not> single_header rows j \<and> \<not> split_header rows ?L j) \<and>
         (single_header rows i \<and> r = (i, 1, rows ! i, i + 1) \<or>
          split_header rows ?L i \<and> r = (i, 2, merge_rows (rows ! i) (rows ! (i + 1)), i + 2)))"
    (is "?A \<longleftrightarrow> ?B")
  proof
    assume ?A
    then obtain k where k: "k < ?L" "header_at rows ?L ([0..<?L] ! k) = Some r"
      "\<forall>j<k. header_at rows ?L ([0..<?L] ! j) = None"
      unfolding extract_gpci_headers_def Let_def scan_rows_Some by auto
    from k(1,2) have a: "header_at rows ?L k = Some r" by simp
    have b: "\<forall>j<k. \<not> single_header rows j \<and> \<not> split_header rows ?L j"
    proof (intro allI impI)
      fix j assume "j < k"
      with k(3) have "header_at rows ?L ([0..<?L] ! j) = None" by blast
      moreover have "j < ?L" using \<open>j < k\<close> k(1) by simp
      ultimately have "header_at rows ?L j = None" by simp
      then show "\<not> single_header rows j \<and> \<not> split_header rows ?L j" by (simp add: header_at_None)
    qed
    from a have "single_header rows k \<and> r = (k, 1, rows ! k, k + 1) \<or>
          split_header rows ?L k \<and> r = (k, 2, merge_rows (rows ! k) (rows ! (k + 1)), k + 2)"
      by (simp add: header_at_Some)
    with k(1) b show ?B by blast
  next
    assume ?B
    then obtain i where i: "i < ?L" "\<forall>j<i. \<not> single_header rows j \<and> \<not> split_header rows ?L j"
      "single_header rows i \<and> r = (i, 1, rows ! i, i + 1) \<or>
          split_header rows ?L i \<and> r = (i, 2, merge_rows (rows ! i) (rows ! (i + 1)), i + 2)"
      by blast
    from i(3) have a: "header_at rows ?L ([0..<?L] ! i)  = Some r" using i(1) by (simp add: header_at_Some)
    have b: "\<forall>j<i. header_at rows ?L ([0..<?L] ! j) = None"
    proof (intro allI impI)
      fix j assume "j < i"
      then have "j < ?L" using i(1) by simp
      moreover from i(2) \<open>j < i\<close> have "header_at rows ?L j = None" by (simp add: header_at_None)
      ultimately show "header_at rows ?L ([0..<?L] ! j) = None" by simp
    qed
    have "\<exists>k<length [0..<?L]. header_at rows ?L ([0..<?L] ! k) = Some r \<and>
        (\<forall>j<k. header_at rows ?L ([0..<?L] ! j) = None)"
      using a b i(1) by (intro exI[of _ i]) simp
    then show ?A unfolding extract_gpci_headers_def Let_def scan_rows_Some .
  qed
  show "length (merge_rows row row2) = max (length row) (length row2)"
    by (rule merge_rows_length)
  show "\<forall>j<max (length row) (length row2).
      merge_rows row row2 ! j =
        (if py_isdigit (py_strip (cell_at row j)) \<and> py_strip (cell_at row2 j) = []
         then py_strip (cell_at row j)
         else spec_merge_cell (cell_at row j) (cell_at row2 j))"
    using merge_rows_nth merge_cell_spec by simp
qed

text \<open>
  The theorem at a table whose header is split over the second and third line: the
  title line is passed over, and the merged header starts at index 1.
\<close>

theorem extract_gpci_headers_locates_witness:
  "extract_gpci_headers gpci_split_example 80 =
     Some (1, 2, [''Locality Number'', ''Locality Name'', ''2019'', ''PW GPCI'', ''PE GPCI'',
                  ''MP GPCI''], 3) \<and>
   \<not> single_header gpci_split_example 0 \<and> \<not> split_header gpci_split_example 4 0 \<and>
   \<not> single_header gpci_split_example 1 \<and> split_header gpci_split_example 4 1"
proof -
  have e: "extract_gpci_headers gpci_split_example 80 =
     Some (1, 2, [''Locality Number'', ''Locality Name'', ''2019'', ''PW GPCI'', ''PE GPCI'',
                  ''MP GPCI''], 3)"
    by code_simp
  have h: "\<not> single_header gpci_split_example 0" "\<not> split_header gpci_split_example 4 0"
    "\<not> single_header gpci_split_example 1" "split_header gpci_split_example 4 1"
    by code_simp+
  from extract_gpci_headers_locates[of gpci_split_example 80] e h show ?thesis by blast
qed

text \<open>
  Claim C5 as stated fails where the first row's cell is purely numeric and the second
  row's cell is empty: the claim takes the second row's (empty) cell, the code keeps
  the number of the first row (\<^verbatim>\<open>b_clean or a_clean\<close>).
\<close>

theorem merge_numeric_over_empty_counterexample:
  "extract_gpci_headers gpci_split_example 80 =
     Some (1, 2, [''Locality Number'', ''Locality Name'', ''2019'', ''PW GPCI'', ''PE GPCI'',
                  ''MP GPCI''], 3) \<and>
   cell_at (gpci_split_example ! 1) 2 = ''2019 '' \<and>
   cell_at (gpci_split_example ! 2) 2 = '''' \<and>
   spec_merge_cell ''2019 '' '''' = '''' \<and>
   merge_cell ''2019 '' '''' = ''2019''"
  by code_simp

section \<open>Numeric cells in the two parsers\<close>

lemma rvu_safe_float_numeric_cell:
  "rvu_safe_float row idx = (case numeric_cell row idx of None \<Rightarrow> Fin 0 | Some x \<Rightarrow> x)"
  by (auto simp: rvu_safe_float_def numeric_cell_def Let_def split: option.splits)

lemma gpci_safe_float_numeric_cell: "gpci_safe_float row idx = numeric_cell row idx"
  by (auto simp: gpci_safe_float_def numeric_cell_def Let_def split: option.splits)

lemma rvu_row_step_kept:
  "rvu_row_kept cols row \<Longrightarrow>
   rvu_row_step cols rvu_data row =
     AList.update (py_strip (row ! cpt_idx cols)) (rvu_record cols row) rvu_data"
  by (auto simp: rvu_row_kept_def rvu_row_step_def Let_def)

lemma gpci_row_step_skipped:
  assumes "gpci_data_row cols row"
    and "numeric_cell row (work_gpci_idx cols) = None \<or> numeric_cell row (pe_gpci_idx cols) = None \<or>
         numeric_cell row (mp_gpci_idx cols) = None"
  shows "gpci_row_step derive_state locality_key cols st row = st\<lparr>skipped := skipped st + 1\<rparr>"
  using assms
  by (auto simp: gpci_row_step_def gpci_safe_float_numeric_cell Let_def split: option.splits)

lemma gpci_row_step_not_data:
  "\<not> gpci_data_row cols row \<Longrightarrow> gpci_row_step derive_state locality_key cols st row = st"
  by (simp add: gpci_row_step_def)

lemma clean_numeric_chars:
  "set (clean_numeric s) \<subseteq> set digit_chars \<union> {CHR ''.'', CHR ''-''}"
  by (auto simp: clean_numeric_def is_dec_digit_def)

text \<open>
  Claim C7, as the code has it. Both parsers read a numeric cell in the same way
  (\<open>numeric_cell\<close>: trim, remove every character that is not a digit, a point or a minus
  sign, then \<^verbatim>\<open>float\<close>). Where that reading fails (column unresolved, cell missing,
  nothing left, or not a number) the RVU parser takes 0.0, and a row with a usable code
  is stored whatever its numeric cells are. The GPCI parser, on a row that has passed its
  filter for non-data lines, counts the row as skipped and leaves the output as it was
  when the work, practice-expense or malpractice index fails to read.
\<close>

theorem numeric_parsing_asymmetry:
  "rvu_safe_float row idx = (case numeric_cell row idx of None \<Rightarrow> Fin 0 | Some x \<Rightarrow> x) \<and>
   (rvu_row_kept cols row \<longrightarrow>
      rvu_row_step cols rvu_data row =
        AList.update (py_strip (row ! cpt_idx cols)) (rvu_record cols row) rvu_data) \<and>
   gpci_safe_float row idx = numeric_cell row idx \<and>
   (gpci_data_row gcols row \<and>
    (numeric_cell row (work_gpci_idx gcols) = None \<or> numeric_cell row (pe_gpci_idx gcols) = None \<or>
     numeric_cell row (mp_gpci_idx gcols) = None) \<longrightarrow>
      gpci_row_step derive_state locality_key gcols st row = st\<lparr>skipped := skipped st + 1\<rparr>) \<and>
   (\<forall>c\<in>set (clean_numeric cell). is_dec_digit c \<or> c = CHR ''.'' \<or> c = CHR ''-'') \<and>
   clean_numeric cell = filter (\<lambda>c. is_dec_digit c \<or> c = CHR ''.'' \<or> c = CHR ''-'') cell"
  using rvu_safe_float_numeric_cell rvu_row_step_kept gpci_safe_float_numeric_cell
    gpci_row_step_skipped
  by (auto simp: clean_numeric_def)

text \<open>
  The theorem at a GPCI row with a blank practice-expense index, which is counted and
  not stored, and at an RVU row with two unreadable cells, which is stored with 0.0 in
  their place.
\<close>

theorem numeric_parsing_asymmetry_witness:
  "gpci_data_row gpci_example_cols [''01'', ''ALABAMA'', ''1.000'', '''', ''0.600''] \<and>
   numeric_cell [''01'', ''ALABAMA'', ''1.000'', '''', ''0.600''] (pe_gpci_idx gpci_example_cols) = None \<and>
   gpci_row_step no_state plain_key gpci_example_cols empty_gpci_state
       [''01'', ''ALABAMA'', ''1.000'', '''', ''0.600''] =
     empty_gpci_state\<lparr>skipped := skipped empty_gpci_state + 1\<rparr> \<and>
   rvu_row_kept rvu_example_cols [''99213'', ''Office visit'', ''1.30'', ''n/a'', ''1.2.3'', ''$0.10''] \<and>
   rvu_row_step rvu_example_cols []
       [''99213'', ''Office visit'', ''1.30'', ''n/a'', ''1.2.3'', ''$0.10''] =
     [(''99213'', \<lparr>desc = ''Office visit'', work_rvu = Fin (13 / 10), pe_rvu_fac = Fin 0,
                   pe_rvu_nonfac = Fin 0, mp_rvu = Fin (1 / 10)\<rparr>)]"
proof -
  let ?g = "[''01'', ''ALABAMA'', ''1.000'', '''', ''0.600'']"
  let ?r = "[''99213'', ''Office visit'', ''1.30'', ''n/a'', ''1.2.3'', ''$0.10'']"
  have g1: "gpci_data_row gpci_example_cols ?g" by code_simp
  have g2: "numeric_cell ?g (pe_gpci_idx gpci_example_cols) = None" by code_simp
  have r1: "rvu_row_kept rvu_example_cols ?r" by code_simp
  have r2: "AList.update (py_strip (?r ! cpt_idx rvu_example_cols)) (rvu_record rvu_example_cols ?r) [] =
     [(''99213'', \<lparr>desc = ''Office visit'', work_rvu = Fin (13 / 10), pe_rvu_fac = Fin 0,
                   pe_rvu_nonfac = Fin 0, mp_rvu = Fin (1 / 10)\<rparr>)]"
    by code_simp
  from numeric_parsing_asymmetry[where row = ?g and gcols = gpci_example_cols
      and derive_state = no_state and locality_key = plain_key and st = empty_gpci_state] g1 g2
  have g3: "gpci_row_step no_state plain_key gpci_example_cols empty_gpci_state ?g =
     empty_gpci_state\<lparr>skipped := skipped empty_gpci_state + 1\<rparr>"
    by blast
  from numeric_parsing_asymmetry[where row = ?r and cols = rvu_example_cols and rvu_data = "[]"] r1
  have r3: "rvu_row_step rvu_example_cols [] ?r =
     AList.update (py_strip (?r ! cpt_idx rvu_example_cols)) (rvu_record rvu_example_cols ?r) []"
    by blast
  from g1 g2 g3 r1 r2 r3 show ?thesis by simp
qed

text \<open>
  Claim C7 as stated fails on a row that the filter for non-data lines stops, such as a
  note under the table: its indices are missing and it is dropped, but the skip counter
  stays as it was.
\<close>

theorem note_row_not_counted_counterexample:
  "numeric_cell [''Note: the values are final''] (work_gpci_idx gpci_example_cols) = None \<and>
   numeric_cell [''Note: the values are final''] (pe_gpci_idx gpci_example_cols) = None \<and>
   numeric_cell [''Note: the values are final''] (mp_gpci_idx gpci_example_cols) = None \<and>
   gpci_row_step no_state plain_key gpci_example_cols empty_gpci_state
       [''Note: the values are final''] = empty_gpci_state \<and>
   skipped empty_gpci_state = 0"
  by code_simp

section \<open>Snapshots: keys and repeated codes\<close>

subsection \<open>RVU rows\<close>

lemma map_of_rvu_row_step:
  "map_of (rvu_row_step cols d row) =
     (if rvu_row_kept cols row
      then (map_of d)(py_strip (row ! cpt_idx cols) \<mapsto> rvu_record cols row)
      else map_of d)"
  by (auto simp: rvu_row_step_def rvu_row_kept_def Let_def update_conv')

lemma keys_rvu_row_step:
  "fst ` set (rvu_row_step cols d row) =
     (if rvu_row_kept cols row then {py_strip (row ! cpt_idx cols)} \<union> fst ` set d else fst ` set d)"
  by (auto simp: rvu_row_step_def rvu_row_kept_def Let_def dom_update)

lemma map_of_rvu_rows_later:
  "(\<forall>row\<in>set post. rvu_row_kept cols row \<longrightarrow> py_strip (row ! cpt_idx cols) \<noteq> k) \<Longrightarrow>
   map_of (foldl (rvu_row_step cols) d post) k = map_of d k"
  by (induction post arbitrary: d) (auto simp: map_of_rvu_row_step)

lemma keys_rvu_rows:
  "fst ` set (foldl (rvu_row_step cols) d rows) =
     fst ` set d \<union> {py_strip (row ! cpt_idx cols) | row. row \<in> set rows \<and> rvu_row_kept cols row}"
  by (induction rows arbitrary: d) (auto simp: keys_rvu_row_step)

lemma rvu_last_wins:
  assumes "rows = pre @ row # post" "rvu_row_kept cols row"
    and "\<forall>r\<in>set post. rvu_row_kept cols r \<longrightarrow> py_strip (r ! cpt_idx cols) \<noteq> py_strip (row ! cpt_idx cols)"
  shows "map_of (parse_rvu_rows cols rows) (py_strip (row ! cpt_idx cols)) = Some (rvu_record cols row)"
proof -
  let ?k = "py_strip (row ! cpt_idx cols)"
  have "parse_rvu_rows cols rows =
      foldl (rvu_row_step cols) (rvu_row_step cols (foldl (rvu_row_step cols) [] pre) row) post"
    by (simp add: parse_rvu_rows_def assms(1))
  then have "map_of (parse_rvu_rows cols rows) ?k =
      map_of (rvu_row_step cols (foldl (rvu_row_step cols) [] pre) row) ?k"
    using map_of_rvu_rows_later[OF assms(3)] by simp
  also have "\<dots> = Some (rvu_record cols row)" using assms(2) by (simp add: map_of_rvu_row_step)
  finally show ?thesis .
qed

lemma rvu_keys_trimmed:
  assumes "k \<in> fst ` set (parse_rvu_rows cols rows)"
  shows "k \<noteq> [] \<and> py_strip k = k \<and> py_lower k \<notin> set [''cpt'', ''code'', ''hcpcs'']"
proof -
  from assms obtain row where "row \<in> set rows" "rvu_row_kept cols row" "k = py_strip (row ! cpt_idx cols)"
    by (auto simp: parse_rvu_rows_def keys_rvu_rows)
  then show ?thesis by (auto simp: rvu_row_kept_def py_strip_idem)
qed

subsection \<open>Validation\<close>

lemma validate_rows_Cons:
  "validate_rows py_str ((code, row) # rest) cleaned =
     (if usable_row code row
      then (case row_record py_str row of
              Inl e \<Rightarrow> Inl e
            | Inr r \<Rightarrow> validate_rows py_str rest (AList.update (clean_code code) r cleaned))
      else validate_rows py_str rest cleaned)"
  by (auto simp: usable_row_def row_record_def clean_code_def split: json.splits sum.splits)

lemma validate_rows_origin:
  "validate_rows py_str items acc = Inr cleaned \<Longrightarrow> map_of cleaned k = Some r \<Longrightarrow>
   map_of acc k = Some r \<or>
   (\<exists>code row. (code, row) \<in> set items \<and> usable_row code row \<and> k = clean_code code \<and>
      row_record py_str row = Inr r)"
proof (induction items arbitrary: acc)
  case Nil
  then show ?case by simp
next
  case (Cons item items)
  obtain code row where item: "item = (code, row)" by (cases item)
  show ?case
  proof (cases "usable_row code row")
    case False
    with Cons.prems item have "validate_rows py_str items acc = Inr cleaned"
      by (simp add: validate_rows_Cons del: validate_rows.simps)
    from Cons.IH[OF this Cons.prems(2)] show ?thesis by auto
  next
    case True
    with Cons.prems(1) item obtain r0 where r0: "row_record py_str row = Inr r0"
      and rest: "validate_rows py_str items (AList.update (clean_code code) r0 acc) = Inr cleaned"
      by (auto simp add: validate_rows_Cons simp del: validate_rows.simps split: sum.splits)
    from Cons.IH[OF rest Cons.prems(2)]
    consider "map_of (AList.update (clean_code code) r0 acc) k = Some r"
      | "\<exists>code row. (code, row) \<in> set items \<and> usable_row code row \<and> k = clean_code code \<and>
           row_record py_str row = Inr r" by blast
    then show ?thesis
    proof cases
      case 1
      show ?thesis
      proof (cases "k = clean_code code")
        case True
        with 1 have "r = r0" by (simp add: update_conv')
        with True r0 \<open>usable_row code row\<close> item show ?thesis by auto
      next
        case False
        with 1 have "map_of acc k = Some r" by (simp add: update_conv')
        then show ?thesis by simp
      qed
    next
      case 2
      then show ?thesis by auto
    qed
  qed
qed

lemma validate_rows_error:
  "(code, row) \<in> set items \<Longrightarrow> usable_row code row \<Longrightarrow> row_record py_str row = Inl e \<Longrightarrow>
   \<exists>e'. validate_rows py_str items acc = Inl e'"
proof (induction items arbitrary: acc)
  case Nil
  then show ?case by simp
next
  case (Cons item items)
  obtain c0 r0 where item: "item = (c0, r0)" by (cases item)
  show ?case
  proof (cases "(code, row) = item")
    case True
    with Cons.prems item show ?thesis by (simp add: validate_rows_Cons del: validate_rows.simps)
  next
    case False
    with Cons.prems have "(code, row) \<in> set items" by auto
    from Cons.IH[OF this Cons.prems(2,3)] item show ?thesis
      by (auto simp add: validate_rows_Cons simp del: validate_rows.simps split: sum.splits)
  qed
qed

lemma validate_rows_later:
  "validate_rows py_str post acc = Inr cleaned \<Longrightarrow>
   (\<forall>(code, row)\<in>set post. usable_row code row \<longrightarrow> clean_code code \<noteq> k) \<Longrightarrow>
   map_of cleaned k = map_of acc k"
proof (induction post arbitrary: acc)
  case Nil
  then show ?case by simp
next
  case (Cons item post)
  obtain code row where item: "item = (code, row)" by (cases item)
  show ?case
  proof (cases "usable_row code row")
    case False
    with Cons.prems item have "validate_rows py_str post acc = Inr cleaned"
      by (simp add: validate_rows_Cons del: validate_rows.simps)
    from Cons.IH[OF this] Cons.prems(2) show ?thesis by auto
  next
    case True
    with Cons.prems(1) item obtain r0 where r0: "row_record py_str row = Inr r0"
      and rest: "validate_rows py_str post (AList.update (clean_code code) r0 acc) = Inr cleaned"
      by (auto simp add: validate_rows_Cons simp del: validate_rows.simps split: sum.splits)
    from Cons.prems(2) item True have ne: "clean_code code \<noteq> k" by auto
    from Cons.IH[OF rest] Cons.prems(2) have "map_of cleaned k = map_of (AList.update (clean_code code) r0 acc) k"
      by auto
    with ne show ?thesis by (simp add: update_conv')
  qed
qed

lemma validate_rows_append:
  "validate_rows py_str (pre @ post) acc =
     (case validate_rows py_str pre acc of Inl e \<Rightarrow> Inl e | Inr mid \<Rightarrow> validate_rows py_str post mid)"
proof (induction pre arbitrary: acc)
  case Nil
  show ?case by simp
next
  case (Cons item pre)
  obtain code row where item: "item = (code, row)" by (cases item)
  show ?case unfolding item append_Cons validate_rows_Cons
    by (auto simp: Cons.IH split: sum.splits)
qed

lemma validate_last_wins:
  assumes "validate_rows py_str (pre @ (code, row) # post) [] = Inr cleaned"
    and "usable_row code row"
    and "\<forall>(c, r)\<in>set post. usable_row c r \<longrightarrow> clean_code c \<noteq> clean_code code"
  shows "\<exists>r. row_record py_str row = Inr r \<and> map_of cleaned (clean_code code) = Some r"
proof -
  from assms(1) obtain mid where mid: "validate_rows py_str pre [] = Inr mid"
    and rest: "validate_rows py_str ((code, row) # post) mid = Inr cleaned"
    by (auto simp: validate_rows_append split: sum.splits)
  from rest assms(2) obtain r where r: "row_record py_str row = Inr r"
    and post: "validate_rows py_str post (AList.update (clean_code code) r mid) = Inr cleaned"
    by (auto simp add: validate_rows_Cons simp del: validate_rows.simps split: sum.splits)
  from validate_rows_later[OF post assms(3)] have "map_of cleaned (clean_code code) = Some r"
    by (simp add: update_conv')
  with r show ?thesis by blast
qed

lemma coerce_record_Inr:
  "coerce_record py_str members = Inr r \<Longrightarrow>
     coerce_float (dict_get members ''work_rvu'') = Inr (work_rvu r) \<and>
     coerce_float (dict_get members ''pe_rvu_fac'') = Inr (pe_rvu_fac r) \<and>
     coerce_float (dict_get members ''pe_rvu_nonfac'') = Inr (pe_rvu_nonfac r) \<and>
     coerce_float (dict_get members ''mp_rvu'') = Inr (mp_rvu r) \<and>
     desc r = desc_text py_str (dict_get members ''desc'')"
  by (auto simp: coerce_record_def split: sum.splits)

lemma coerce_record_Inl:
  "coerce_float (dict_get members f) = Inl e \<Longrightarrow>
   f \<in> set [''work_rvu'', ''pe_rvu_fac'', ''pe_rvu_nonfac'', ''mp_rvu''] \<Longrightarrow>
   \<exists>e'. coerce_record py_str members = Inl e'"
  by (auto simp: coerce_record_def split: sum.splits)

lemma usable_row_JObj: "usable_row code row \<Longrightarrow> \<exists>members. row = JObj members"
  by (auto simp: usable_row_def split: json.splits)

lemma coerce_float_error:
  "coerce_float v = Inl e \<Longrightarrow>
     (e = OverflowError \<and> (\<exists>n. v = JInt n \<and> (overflow_bound \<le> real_of_int n \<or> real_of_int n \<le> - overflow_bound))) \<or>
     (e = ValueError \<and> ((\<exists>s. v = JStr s \<and> py_float (py_strip s) = None) \<or> (\<exists>xs. v = JArr xs) \<or>
        (\<exists>kvs. v = JObj kvs)))"
  by (cases v) (auto simp: to_float_def split: if_splits option.splits pyfloat.splits)

lemma coerce_float_JInt:
  "coerce_float (JInt n) =
     (if overflow_bound \<le> real_of_int n \<or> real_of_int n \<le> - overflow_bound then Inl OverflowError
      else Inr (Fin (real_of_int n)))"
  by (auto simp: to_float_def)

lemma coerce_record_first_error:
  assumes "i < length numeric_fields"
    and "coerce_float (dict_get members (numeric_fields ! i)) = Inl e"
    and "\<forall>j<i. \<exists>x. coerce_float (dict_get members (numeric_fields ! j)) = Inr x"
  shows "coerce_record py_str members = Inl e"
proof -
  have prev: "\<exists>x. coerce_float (dict_get members (numeric_fields ! j)) = Inr x" if "j < i" for j
    using assms(3) that by blast
  from assms(1) consider "i = 0" | "i = 1" | "i = 2" | "i = 3"
    by (auto simp: numeric_fields_def less_Suc_eq numeral_eq_Suc)
  then show ?thesis
  proof cases
    case 1
    with assms(2) show ?thesis by (simp add: coerce_record_def numeric_fields_def)
  next
    case 2
    then have "0 < i" by simp
    from prev[OF this] obtain x where "coerce_float (dict_get members (numeric_fields ! 0)) = Inr x"
      by blast
    with 2 assms(2) show ?thesis by (simp add: coerce_record_def numeric_fields_def)
  next
    case 3
    then have "0 < i" "1 < i" by simp_all
    from prev[OF this(1)] prev[OF this(2)] obtain x y where
      "coerce_float (dict_get members (numeric_fields ! 0)) = Inr x"
      "coerce_float (dict_get members (numeric_fields ! 1)) = Inr y"
      by blast
    with 3 assms(2) show ?thesis by (simp add: coerce_record_def numeric_fields_def)
  next
    case 4
    then have "0 < i" "1 < i" "2 < i" by simp_all
    from prev[OF this(1)] prev[OF this(2)] prev[OF this(3)] obtain x y z where
      "coerce_float (dict_get members (numeric_fields ! 0)) = Inr x"
      "coerce_float (dict_get members (numeric_fields ! 1)) = Inr y"
      "coerce_float (dict_get members (numeric_fields ! 2)) = Inr z"
      by blast
    with 4 assms(2) show ?thesis by (simp add: coerce_record_def numeric_fields_def)
  qed
qed

lemma validate_rows_first_error:
  assumes "\<forall>(c, r)\<in>set pre. usable_row c r \<longrightarrow> (\<exists>rec. row_record py_str r = Inr rec)"
    and "usable_row code row" and "row_record py_str row = Inl e"
  shows "validate_rows py_str (pre @ (code, row) # post) acc = Inl e"
  using assms(1)
proof (induction pre arbitrary: acc)
  case Nil
  from assms(2,3) show ?case by (simp add: validate_rows_Cons del: validate_rows.simps)
next
  case (Cons item pre)
  obtain c r where item: "item = (c, r)" by (cases item)
  from Cons.prems have rest: "\<forall>(c, r)\<in>set pre. usable_row c r \<longrightarrow> (\<exists>rec. row_record py_str r = Inr rec)"
    by simp
  show ?case
  proof (cases "usable_row c r")
    case False
    with Cons.IH[OF rest] item show ?thesis
      by (simp add: validate_rows_Cons del: validate_rows.simps)
  next
    case True
    with Cons.prems item obtain rec where "row_record py_str r = Inr rec" by auto
    with True Cons.IH[OF rest] item show ?thesis
      by (simp add: validate_rows_Cons del: validate_rows.simps)
  qed
qed

section \<open>Keys of a snapshot\<close>

text \<open>
  Claim C8, as the code has it. For a snapshot file whose codes are ASCII, every key of
  the snapshot returned by \<^verbatim>\<open>_validate_year_snapshot\<close> is a trimmed, upper-cased,
  non-empty code, and when several raw keys stand for the same code, the snapshot holds
  the record of the last usable one (a row with a non-blank key that is an object with
  the five required fields). Every key of a snapshot built by \<^verbatim>\<open>parse_rvu_csv\<close> is a
  trimmed, non-empty code other than the header words, in the letter case of the source;
  when the table repeats a code, the snapshot holds the record of the last kept row with
  it (a row with a non-empty code cell that is not a header word).
\<close>

theorem snapshot_keys:
  "(validate_year_snapshot py_str year (JObj items) = Inr cleaned \<and>
    (\<forall>(c, r)\<in>set items. is_ascii c) \<and> k \<in> fst ` set cleaned \<longrightarrow>
      k \<noteq> [] \<and> py_strip k = k \<and> py_upper k = k \<and> set k \<inter> set lower_letters = {}) \<and>
   (validate_year_snapshot py_str year (JObj (pre @ (code, row) # post)) = Inr cleaned \<and>
    (\<forall>(c, r)\<in>set (pre @ (code, row) # post). is_ascii c) \<and>
    usable_row code row \<and>
    (\<forall>(c, r)\<in>set post. usable_row c r \<longrightarrow> clean_code c \<noteq> clean_code code) \<longrightarrow>
      (\<exists>r. row_record py_str row = Inr r \<and> map_of cleaned (clean_code code) = Some r)) \<and>
   (k \<in> fst ` set (parse_rvu_rows cols rows) \<longrightarrow>
      k \<noteq> [] \<and> py_strip k = k \<and> py_lower k \<notin> set [''cpt'', ''code'', ''hcpcs'']) \<and>
   (rvu_row_kept cols crow \<and>
    (\<forall>r\<in>set cpost. rvu_row_kept cols r \<longrightarrow>
        py_strip (r ! cpt_idx cols) \<noteq> py_strip (crow ! cpt_idx cols)) \<longrightarrow>
      map_of (parse_rvu_rows cols (cpre @ crow # cpost)) (py_strip (crow ! cpt_idx cols)) =
        Some (rvu_record cols crow))"
proof (intro conjI impI)
  assume a: "validate_year_snapshot py_str year (JObj items) = Inr cleaned \<and>
    (\<forall>(c, r)\<in>set items. is_ascii c) \<and> k \<in> fst ` set cleaned"
  then have items: "validate_rows py_str items [] = Inr cleaned"
    by (simp add: validate_year_snapshot_def)
  from a have "k \<in> dom (map_of cleaned)" by (simp add: dom_map_of_conv_image_fst)
  then obtain r where "map_of cleaned k = Some r" by blast
  from validate_rows_origin[OF items this] obtain code row where
    "usable_row code row" "k = clean_code code" by auto
  then have k: "py_strip code \<noteq> []" "k = clean_code code" by (auto simp: usable_row_def)
  from clean_code_props[OF k(1)] k(2)
  show "k \<noteq> []" "py_strip k = k" "py_upper k = k" "set k \<inter> set lower_letters = {}" by simp_all
next
  assume "validate_year_snapshot py_str year (JObj (pre @ (code, row) # post)) = Inr cleaned \<and>
    (\<forall>(c, r)\<in>set (pre @ (code, row) # post). is_ascii c) \<and>
    usable_row code row \<and>
    (\<forall>(c, r)\<in>set post. usable_row c r \<longrightarrow> clean_code c \<noteq> clean_code code)"
  then show "\<exists>r. row_record py_str row = Inr r \<and> map_of cleaned (clean_code code) = Some r"
    using validate_last_wins[of py_str pre code row post cleaned]
    by (simp add: validate_year_snapshot_def)
next
  assume "k \<in> fst ` set (parse_rvu_rows cols rows)"
  from rvu_keys_trimmed[OF this]
  show "k \<noteq> []" "py_strip k = k" "py_lower k \<notin> set [''cpt'', ''code'', ''hcpcs'']" by simp_all
next
  assume "rvu_row_kept cols crow \<and>
    (\<forall>r\<in>set cpost. rvu_row_kept cols r \<longrightarrow>
        py_strip (r ! cpt_idx cols) \<noteq> py_strip (crow ! cpt_idx cols))"
  then show "map_of (parse_rvu_rows cols (cpre @ crow # cpost)) (py_strip (crow ! cpt_idx cols)) =
        Some (rvu_record cols crow)"
    using rvu_last_wins[of "cpre @ crow # cpost" cpre crow cpost cols] by simp
qed

text \<open>
  The theorem at a snapshot file with ASCII codes whose first and last key both stand
  for \<open>G0101\<close>, with a row in between that lacks its numbers: the record of the last one
  is held.
\<close>

theorem snapshot_keys_witness:
  "validate_year_snapshot no_text 2024 repeated_code_example =
     Inr [(''G0101'', \<lparr>desc = ''new'', work_rvu = Fin (5 / 2), pe_rvu_fac = Fin (11 / 20),
                       pe_rvu_nonfac = Fin 1, mp_rvu = Fin 0\<rparr>)] \<and>
   is_ascii '' g0101 '' \<and> is_ascii ''skip'' \<and> is_ascii ''G0101'' \<and>
   usable_row ''G0101'' (example_row (JStr '' new '') (JStr '' 2.5 '')) \<and>
   clean_code '' g0101 '' = ''G0101'' \<and> clean_code ''G0101'' = ''G0101'' \<and>
   py_strip ''G0101'' = ''G0101'' \<and> py_upper ''G0101'' = ''G0101'' \<and>
   row_record no_text (example_row (JStr '' new '') (JStr '' 2.5 '')) =
     Inr \<lparr>desc = ''new'', work_rvu = Fin (5 / 2), pe_rvu_fac = Fin (11 / 20),
          pe_rvu_nonfac = Fin 1, mp_rvu = Fin 0\<rparr>"
proof -
  let ?r = "\<lparr>desc = ''new'', work_rvu = Fin (5 / 2), pe_rvu_fac = Fin (11 / 20),
             pe_rvu_nonfac = Fin 1, mp_rvu = Fin 0\<rparr>"
  let ?cleaned = "[(''G0101'', ?r)]"
  let ?pre = "[('' g0101 '', example_row (JStr ''old'') (JFloat (Fin 1))),
               (''skip'', JObj [(''desc'', JStr ''no numbers'')])]"
  let ?row = "example_row (JStr '' new '') (JStr '' 2.5 '')"
  have v: "validate_year_snapshot no_text 2024 repeated_code_example = Inr ?cleaned"
    by code_simp
  have u: "usable_row ''G0101'' ?row" by code_simp
  have c: "clean_code '' g0101 '' = ''G0101''" "clean_code ''G0101'' = ''G0101''" by code_simp+
  have asc: "is_ascii '' g0101 ''" "is_ascii ''skip''" "is_ascii ''G0101''" by code_simp+
  have d: "repeated_code_example = JObj (?pre @ (''G0101'', ?row) # [])"
    by (simp add: repeated_code_example_def)
  have k: "''G0101'' \<in> fst ` set ?cleaned" by simp
  from snapshot_keys[where py_str = no_text and year = 2024 and items = "?pre @ (''G0101'', ?row) # []"
      and cleaned = ?cleaned and k = "''G0101''" and pre = ?pre and code = "''G0101''"
      and row = ?row and post = "[]"] v u k d asc
  have "py_strip ''G0101'' = ''G0101'' \<and> py_upper ''G0101'' = ''G0101'' \<and>
        (\<exists>r. row_record no_text ?row = Inr r \<and> map_of ?cleaned (clean_code ''G0101'') = Some r)"
    by simp
  with c(2) have "py_strip ''G0101'' = ''G0101'' \<and> py_upper ''G0101'' = ''G0101'' \<and>
        row_record no_text ?row = Inr ?r"
    by auto
  with v u c asc show ?thesis by simp
qed

text \<open>
  Claim C8 as stated fails for the snapshot of \<^verbatim>\<open>parse_rvu_csv\<close>, whose keys are trimmed
  but not upper-cased: a code in lower case stays in lower case.
\<close>

theorem rvu_key_case_counterexample:
  "parse_rvu_csv [[''HCPCS'', ''Description'', ''Work RVU''], ['' g0101 '', ''Screening'', ''0.45'']] =
     Some [(''g0101'', \<lparr>desc = ''Screening'', work_rvu = Fin (9 / 20), pe_rvu_fac = Fin 0,
                        pe_rvu_nonfac = Fin 0, mp_rvu = Fin 0\<rparr>)] \<and>
   is_ascii '' g0101 '' \<and> py_upper ''g0101'' = ''G0101''"
  by code_simp

section \<open>Components of a year record\<close>

text \<open>
  Claim C6, as the code has it. Every record of a snapshot has its four components as
  floats. In a snapshot returned by \<^verbatim>\<open>_validate_year_snapshot\<close> (for a file with ASCII
  codes) each record comes from a row that has all five required keys (a row that lacks
  one is left out), and each component is the conversion of the row's value: \<^verbatim>\<open>null\<close>
  gives 0.0, a float is taken as it is, also when it is NaN or an infinity, and a string
  is given to \<^verbatim>\<open>float\<close>. A value that does not convert raises, and then no snapshot is
  returned at all: the error is that of the first value that fails, going through the
  usable rows in the order of the file and through the fields work, facility
  practice expense, non-facility practice expense, malpractice in each row. It is
  \<^verbatim>\<open>OverflowError\<close> exactly for an integer too large for a float, and \<^verbatim>\<open>ValueError\<close> for
  a string that is not a number, a list or an object; a file that is not an object
  gives \<^verbatim>\<open>ValueError\<close>. In a snapshot built by \<^verbatim>\<open>parse_rvu_csv\<close> each component is the
  reading of its cell, and 0.0 where the cell is missing or unreadable.
\<close>

theorem record_components:
  "(validate_year_snapshot py_str year (JObj items) = Inr cleaned \<and>
    (\<forall>(c, r)\<in>set items. is_ascii c) \<and> map_of cleaned k = Some r \<longrightarrow>
      (\<exists>code members. (code, JObj members) \<in> set items \<and> usable_row code (JObj members) \<and>
         k = clean_code code \<and>
         coerce_float (dict_get members ''work_rvu'') = Inr (work_rvu r) \<and>
         coerce_float (dict_get members ''pe_rvu_fac'') = Inr (pe_rvu_fac r) \<and>
         coerce_float (dict_get members ''pe_rvu_nonfac'') = Inr (pe_rvu_nonfac r) \<and>
         coerce_float (dict_get members ''mp_rvu'') = Inr (mp_rvu r))) \<and>
   ((\<forall>(c, row)\<in>set pre. usable_row c row \<longrightarrow> (\<exists>rec. row_record py_str row = Inr rec)) \<and>
    usable_row code (JObj members) \<and> i < length numeric_fields \<and>
    coerce_float (dict_get members (numeric_fields ! i)) = Inl e \<and>
    (\<forall>j<i. \<exists>x. coerce_float (dict_get members (numeric_fields ! j)) = Inr x) \<longrightarrow>
      validate_year_snapshot py_str year (JObj (pre @ (code, JObj members) # post)) = Inl e) \<and>
   (coerce_float v = Inl e \<longrightarrow>
      (e = OverflowError \<and>
       (\<exists>n. v = JInt n \<and> (overflow_bound \<le> real_of_int n \<or> real_of_int n \<le> - overflow_bound))) \<or>
      (e = ValueError \<and>
       ((\<exists>s. v = JStr s \<and> py_float (py_strip s) = None) \<or> (\<exists>xs. v = JArr xs) \<or>
        (\<exists>kvs. v = JObj kvs)))) \<and>
   ((\<forall>members. data \<noteq> JObj members) \<longrightarrow> validate_year_snapshot py_str year data = Inl ValueError) \<and>
   coerce_float JNull = Inr (Fin 0) \<and>
   coerce_float (JFloat x) = Inr x \<and>
   coerce_float (JStr s) = (case py_float (py_strip s) of None \<Rightarrow> Inl ValueError | Some y \<Rightarrow> Inr y) \<and>
   coerce_float (JInt n) =
     (if overflow_bound \<le> real_of_int n \<or> real_of_int n \<le> - overflow_bound then Inl OverflowError
      else Inr (Fin (real_of_int n))) \<and>
   coerce_float (JArr xs) = Inl ValueError \<and>
   coerce_float (JObj kvs) = Inl ValueError \<and>
   work_rvu (rvu_record cols row) =
     (case numeric_cell row (work_idx cols) of None \<Rightarrow> Fin 0 | Some y \<Rightarrow> y) \<and>
   pe_rvu_fac (rvu_record cols row) =
     (case numeric_cell row (pe_fac_idx cols) of None \<Rightarrow> Fin 0 | Some y \<Rightarrow> y) \<and>
   pe_rvu_nonfac (rvu_record cols row) =
     (case numeric_cell row (pe_nonfac_idx cols) of None \<Rightarrow> Fin 0 | Some y \<Rightarrow> y) \<and>
   mp_rvu (rvu_record cols row) =
     (case numeric_cell row (mp_idx cols) of None \<Rightarrow> Fin 0 | Some y \<Rightarrow> y)"
proof (intro conjI impI)
  assume a: "validate_year_snapshot py_str year (JObj items) = Inr cleaned \<and>
    (\<forall>(c, r)\<in>set items. is_ascii c) \<and> map_of cleaned k = Some r"
  then have v: "validate_rows py_str items [] = Inr cleaned" and m: "map_of cleaned k = Some r"
    by (simp_all add: validate_year_snapshot_def)
  from validate_rows_origin[OF v m] obtain code row where o: "(code, row) \<in> set items"
    "usable_row code row" "k = clean_code code" "row_record py_str row = Inr r" by auto
  from usable_row_JObj[OF o(2)] obtain members where row: "row = JObj members" by blast
  with o(4) have "coerce_record py_str members = Inr r" by (simp add: row_record_def)
  from coerce_record_Inr[OF this] o(1,2,3) row
  show "\<exists>code members. (code, JObj members) \<in> set items \<and> usable_row code (JObj members) \<and>
         k = clean_code code \<and>
         coerce_float (dict_get members ''work_rvu'') = Inr (work_rvu r) \<and>
         coerce_float (dict_get members ''pe_rvu_fac'') = Inr (pe_rvu_fac r) \<and>
         coerce_float (dict_get members ''pe_rvu_nonfac'') = Inr (pe_rvu_nonfac r) \<and>
         coerce_float (dict_get members ''mp_rvu'') = Inr (mp_rvu r)"
    by blast
next
  assume a: "(\<forall>(c, row)\<in>set pre. usable_row c row \<longrightarrow> (\<exists>rec. row_record py_str row = Inr rec)) \<and>
    usable_row code (JObj members) \<and> i < length numeric_fields \<and>
    coerce_float (dict_get members (numeric_fields ! i)) = Inl e \<and>
    (\<forall>j<i. \<exists>x. coerce_float (dict_get members (numeric_fields ! j)) = Inr x)"
  then have "coerce_record py_str members = Inl e"
    using coerce_record_first_error[of i members e py_str] by blast
  then have "row_record py_str (JObj members) = Inl e" by (simp add: row_record_def)
  with a validate_rows_first_error[of pre py_str code "JObj members" e post "[]"]
  show "validate_year_snapshot py_str year (JObj (pre @ (code, JObj members) # post)) = Inl e"
    by (simp add: validate_year_snapshot_def)
next
  assume "coerce_float v = Inl e"
  then show "(e = OverflowError \<and>
       (\<exists>n. v = JInt n \<and> (overflow_bound \<le> real_of_int n \<or> real_of_int n \<le> - overflow_bound))) \<or>
      (e = ValueError \<and>
       ((\<exists>s. v = JStr s \<and> py_float (py_strip s) = None) \<or> (\<exists>xs. v = JArr xs) \<or>
        (\<exists>kvs. v = JObj kvs)))"
    by (rule coerce_float_error)
next
  assume "\<forall>members. data \<noteq> JObj members"
  then show "validate_year_snapshot py_str year data = Inl ValueError"
    by (cases data) (simp_all add: validate_year_snapshot_def)
next
  show "coerce_float (JInt n) =
     (if overflow_bound \<le> real_of_int n \<or> real_of_int n \<le> - overflow_bound then Inl OverflowError
      else Inr (Fin (real_of_int n)))"
    by (rule coerce_float_JInt)
qed (simp_all add: rvu_record_def rvu_safe_float_numeric_cell)

text \<open>
  The theorem at a snapshot file with a \<^verbatim>\<open>null\<close> malpractice value, which becomes 0.0,
  and a work value given as text; and at a file whose second row has an integer too
  large for a float in front of a text that is not a number, and a third row with
  such a text: the error is \<^verbatim>\<open>OverflowError\<close>, that of the first value that fails.
\<close>

theorem record_components_witness:
  "validate_year_snapshot no_text 2024 repeated_code_example =
     Inr [(''G0101'', \<lparr>desc = ''new'', work_rvu = Fin (5 / 2), pe_rvu_fac = Fin (11 / 20),
                       pe_rvu_nonfac = Fin 1, mp_rvu = Fin 0\<rparr>)] \<and>
   is_ascii '' g0101 '' \<and> is_ascii ''skip'' \<and> is_ascii ''G0101'' \<and>
   (\<exists>code members. usable_row code (JObj members) \<and> ''G0101'' = clean_code code \<and>
      coerce_float (dict_get members ''work_rvu'') = Inr (Fin (5 / 2)) \<and>
      coerce_float (dict_get members ''mp_rvu'') = Inr (Fin 0)) \<and>
   validate_year_snapshot no_text 2024 (JObj large_int_example) = Inl OverflowError"
proof -
  let ?r = "\<lparr>desc = ''new'', work_rvu = Fin (5 / 2), pe_rvu_fac = Fin (11 / 20),
             pe_rvu_nonfac = Fin 1, mp_rvu = Fin 0\<rparr>"
  let ?items = "[('' g0101 '', example_row (JStr ''old'') (JFloat (Fin 1))),
                 (''skip'', JObj [(''desc'', JStr ''no numbers'')]),
                 (''G0101'', example_row (JStr '' new '') (JStr '' 2.5 ''))]"
  have v: "validate_year_snapshot no_text 2024 repeated_code_example = Inr [(''G0101'', ?r)]"
    by code_simp
  then have v': "validate_year_snapshot no_text 2024 (JObj ?items) = Inr [(''G0101'', ?r)]"
    by (simp add: repeated_code_example_def)
  have asc: "is_ascii '' g0101 ''" "is_ascii ''skip''" "is_ascii ''G0101''" by code_simp+
  have m: "map_of [(''G0101'', ?r)] ''G0101'' = Some ?r" by simp
  from record_components[where py_str = no_text and year = 2024 and items = ?items
      and cleaned = "[(''G0101'', ?r)]" and k = "''G0101''" and r = ?r] v' m asc
  have "\<exists>code members. (code, JObj members) \<in> set ?items \<and> usable_row code (JObj members) \<and>
         ''G0101'' = clean_code code \<and>
         coerce_float (dict_get members ''work_rvu'') = Inr (work_rvu ?r) \<and>
         coerce_float (dict_get members ''pe_rvu_fac'') = Inr (pe_rvu_fac ?r) \<and>
         coerce_float (dict_get members ''pe_rvu_nonfac'') = Inr (pe_rvu_nonfac ?r) \<and>
         coerce_float (dict_get members ''mp_rvu'') = Inr (mp_rvu ?r)"
    by simp
  then have first: "\<exists>code members. usable_row code (JObj members) \<and> ''G0101'' = clean_code code \<and>
      coerce_float (dict_get members ''work_rvu'') = Inr (Fin (5 / 2)) \<and>
      coerce_float (dict_get members ''mp_rvu'') = Inr (Fin 0)"
    by auto
  let ?pre = "[(''99212'', example_row (JStr ''Office visit'') (JInt 1))]"
  let ?members = "[(''desc'', JStr ''Office visit''), (''work_rvu'', JFloat (Fin 1.3)),
                   (''pe_rvu_fac'', JInt (10 ^ 400)), (''pe_rvu_nonfac'', JStr ''n/a''),
                   (''mp_rvu'', JNull)]"
  let ?post = "[(''99214'', example_row (JStr ''Office visit'') (JStr ''n/a''))]"
  have p: "\<forall>(c, row)\<in>set ?pre. usable_row c row \<longrightarrow> (\<exists>rec. row_record no_text row = Inr rec)"
  proof -
    have "row_record no_text (example_row (JStr ''Office visit'') (JInt 1)) =
        Inr \<lparr>desc = ''Office visit'', work_rvu = Fin 1, pe_rvu_fac = Fin (11 / 20),
             pe_rvu_nonfac = Fin 1, mp_rvu = Fin 0\<rparr>"
      by code_simp
    then show ?thesis by simp
  qed
  have u: "usable_row ''99213'' (JObj ?members)" by code_simp
  have i: "(1::nat) < length numeric_fields" by (simp add: numeric_fields_def)
  have f: "coerce_float (dict_get ?members (numeric_fields ! 1)) = Inl OverflowError"
    by code_simp
  have b: "\<forall>j<(1::nat). \<exists>x. coerce_float (dict_get ?members (numeric_fields ! j)) = Inr x"
    by (simp add: numeric_fields_def dict_get_def)
  have l: "large_int_example = ?pre @ (''99213'', JObj ?members) # ?post"
    by (simp add: large_int_example_def)
  from record_components[where py_str = no_text and year = 2024 and pre = ?pre
      and code = "''99213''" and members = ?members and i = 1 and e = OverflowError
      and post = ?post] p u i f b
  have "validate_year_snapshot no_text 2024 (JObj (?pre @ (''99213'', JObj ?members) # ?post)) =
      Inl OverflowError"
    by blast
  then have second: "validate_year_snapshot no_text 2024 (JObj large_int_example) = Inl OverflowError"
    by (simp only: l)
  from v asc first second show ?thesis by blast
qed

text \<open>
  Claim C6 as stated fails in \<^verbatim>\<open>_validate_year_snapshot\<close> twice: a value that is not a
  number (\<open>n/a\<close>) does not default to 0.0 but raises \<^verbatim>\<open>ValueError\<close>, and a NaN in the
  file is kept in the record, which is then not finite.
\<close>

theorem unparseable_and_nan_counterexample:
  "validate_year_snapshot no_text 2024
     (JObj [(''99213'', example_row (JStr ''Office visit'') (JStr ''n/a''))]) = Inl ValueError \<and>
   validate_year_snapshot no_text 2024
     (JObj [(''99213'', example_row (JStr ''Office visit'') (JFloat NaN))]) =
     Inr [(''99213'', \<lparr>desc = ''Office visit'', work_rvu = NaN, pe_rvu_fac = Fin (11 / 20),
                       pe_rvu_nonfac = Fin 1, mp_rvu = Fin 0\<rparr>)] \<and>
   is_ascii ''99213'' \<and> \<not> isfinite NaN"
  by code_simp

section \<open>The loop over the output years\<close>

lemma index_from_notin:
  "y \<notin> set ys \<Longrightarrow> map_of (index_from n ys m) y = map_of m y"
  by (induction ys arbitrary: n m) (auto simp: update_conv')

lemma index_from_distinct:
  "distinct ys \<Longrightarrow> i < length ys \<Longrightarrow> map_of (index_from n ys m) (ys ! i) = Some (n + i)"
proof (induction ys arbitrary: n m i)
  case Nil
  then show ?case by simp
next
  case (Cons y ys)
  show ?case
  proof (cases i)
    case 0
    with Cons.prems show ?thesis by (simp add: index_from_notin update_conv')
  next
    case (Suc j)
    with Cons.prems have "map_of (index_from (Suc n) ys (AList.update y n m)) (ys ! j) = Some (Suc n + j)"
      by (intro Cons.IH) auto
    with Suc show ?thesis by simp
  qed
qed

lemma years_index_nth:
  "distinct ys \<Longrightarrow> i < length ys \<Longrightarrow> map_of (years_index ys) (ys ! i) = Some i"
  using index_from_distinct[of ys i 0 "[]"] by (simp add: years_index_def)

lemma present_years_snoc:
  "present_years per_year (xs @ [y]) code =
     (if year_row per_year y code \<noteq> None then present_years per_year xs code @ [y]
      else present_years per_year xs code)"
  by (simp add: present_years_def)

lemma last_row_Nil: "last_row per_year code [] = None"
  by (simp add: last_row_def present_years_def)

lemma last_row_alt:
  "last_row per_year code xs =
     (if present_years per_year xs code = [] then None
      else year_row per_year (last (present_years per_year xs code)) code)"
  by (simp add: last_row_def split: list.splits)

lemma last_row_snoc:
  "last_row per_year code (xs @ [y]) =
     (case year_row per_year y code of Some r \<Rightarrow> Some r | None \<Rightarrow> last_row per_year code xs)"
  by (simp add: last_row_alt present_years_snoc split: option.splits)


lemma last_row_take_Suc:
  "n < length ys \<Longrightarrow>
   last_row per_year code (take (Suc n) ys) =
     (case year_row per_year (ys ! n) code of Some r \<Rightarrow> Some r
      | None \<Rightarrow> last_row per_year code (take n ys))"
  by (simp add: take_Suc_conv_app_nth last_row_snoc)


lemma filled_init: "filled len 0 f (replicate len None)"
  by (simp add: filled_def)

lemma filled_keep:
  "filled len n f xs \<Longrightarrow> n < len \<Longrightarrow> f n = None \<Longrightarrow> filled len (Suc n) f xs"
  by (auto simp: filled_def less_Suc_eq)

lemma filled_update:
  "filled len n f xs \<Longrightarrow> n < len \<Longrightarrow> f n = v \<Longrightarrow> filled len (Suc n) f (xs[n := v])"
  by (auto simp: filled_def less_Suc_eq nth_list_update)

lemma loop_inv_init:
  "loop_inv per_year ys tol code 0 (init_state (length ys))"
  by (simp add: loop_inv_def init_state_def filled_init last_row_Nil)

lemma loop_inv_step:
  assumes inv: "loop_inv per_year ys tol code n st" and d: "distinct ys" and n: "n < length ys"
  shows "loop_inv per_year ys tol code (Suc n)
           (year_step per_year (years_index ys) code canon tol st (ys ! n))"
proof (cases "year_row per_year (ys ! n) code")
  case None
  then have same: "year_step per_year (years_index ys) code canon tol st (ys ! n) = st"
    by (simp add: year_step_def split: option.splits)
  from None have z: "slot_at per_year ys code c n = None" "status_at per_year ys tol code n = None" for c
    by (simp_all add: slot_at_def status_at_def)
  from inv n z None show ?thesis
    unfolding same loop_inv_def
    by (simp add: filled_keep last_row_take_Suc)
next
  case (Some row)
  from d n have idx: "map_of (years_index ys) (ys ! n) = Some n" by (rule years_index_nth)
  let ?st' = "year_step per_year (years_index ys) code canon tol st (ys ! n)"
  from inv have pr: "prev_row st = last_row per_year code (take n ys)"
    "prev_desc st = map_option desc (last_row per_year code (take n ys))"
    by (simp_all add: loop_inv_def)
  have w: "work ?st' = (work st)[n := Some (work_rvu row)]"
    and pf: "pe_fac ?st' = (pe_fac st)[n := Some (pe_rvu_fac row)]"
    and pn: "pe_nonfac ?st' = (pe_nonfac st)[n := Some (pe_rvu_nonfac row)]"
    and m: "mp ?st' = (mp st)[n := Some (mp_rvu row)]"
    and s: "status ?st' = (status st)[n := Some (classify (prev_row st) (prev_desc st) row tol)]"
    and p: "prev_row ?st' = Some row" "prev_desc ?st' = Some (desc row)"
    using Some idx by (simp_all add: year_step_def)
  from Some have z: "slot_at per_year ys code c n = Some (c row)" for c
    by (simp add: slot_at_def)
  from Some pr have zs: "status_at per_year ys tol code n =
      Some (classify (prev_row st) (prev_desc st) row tol)"
    by (simp add: status_at_def)
  from inv have f: "filled (length ys) n (slot_at per_year ys code work_rvu) (work st)"
    "filled (length ys) n (slot_at per_year ys code pe_rvu_fac) (pe_fac st)"
    "filled (length ys) n (slot_at per_year ys code pe_rvu_nonfac) (pe_nonfac st)"
    "filled (length ys) n (slot_at per_year ys code mp_rvu) (mp st)"
    "filled (length ys) n (status_at per_year ys tol code) (status st)"
    by (simp_all add: loop_inv_def)
  show ?thesis
    unfolding loop_inv_def w pf pn m s p
    using filled_update[OF f(1) n z] filled_update[OF f(2) n z] filled_update[OF f(3) n z]
      filled_update[OF f(4) n z] filled_update[OF f(5) n zs] Some n
    by (simp add: last_row_take_Suc)
qed

lemma loop_inv_prefix:
  assumes d: "distinct ys" and n: "n \<le> length ys"
  shows "loop_inv per_year ys tol code n
           (foldl (year_step per_year (years_index ys) code canon tol)
              (init_state (length ys)) (take n ys))"
  using n
proof (induction n)
  case 0
  show ?case by (simp add: loop_inv_init)
next
  case (Suc n)
  then have n: "n < length ys" by simp
  from Suc have "loop_inv per_year ys tol code n
           (foldl (year_step per_year (years_index ys) code canon tol)
              (init_state (length ys)) (take n ys))" by simp
  from loop_inv_step[OF this d n, of canon] n show ?case
    by (simp add: take_Suc_conv_app_nth)
qed

lemma code_loop_inv:
  "distinct ys \<Longrightarrow> loop_inv per_year ys tol code (length ys) (code_loop per_year ys tol code)"
  using loop_inv_prefix[of ys "length ys" per_year tol code] by (simp add: code_loop_def)


lemma code_entry_slots:
  assumes "distinct ys" "i < length ys"
  shows "e_work_rvu (code_entry per_year ys tol code) ! i = slot_at per_year ys code work_rvu i"
    and "e_pe_rvu_fac (code_entry per_year ys tol code) ! i = slot_at per_year ys code pe_rvu_fac i"
    and "e_pe_rvu_nonfac (code_entry per_year ys tol code) ! i = slot_at per_year ys code pe_rvu_nonfac i"
    and "e_mp_rvu (code_entry per_year ys tol code) ! i = slot_at per_year ys code mp_rvu i"
  using code_loop_inv[OF assms(1), of per_year tol code] assms(2)
  by (simp_all add: code_entry_def Let_def loop_inv_def filled_def)

section \<open>Status of a present year\<close>

lemma parse_year_range_sorted:
  "parse_year_range years = Inr ys \<Longrightarrow> distinct ys \<and> sorted ys"
  by (cases years) (auto split: if_splits)

lemma map_of_map_key:
  "map_of (map (\<lambda>k. (k, f k)) xs) k = (if k \<in> set xs then Some (f k) else None)"
  by (induction xs) auto

lemma codes_lookup:
  "map_of (codes (build_timeline per_year ys tol)) code =
     (if code \<in> set (all_codes per_year) then Some (code_entry per_year ys tol code) else None)"
  by (simp add: build_timeline_def Let_def map_of_map_key)











lemma main_Inr:
  "parse_year_range years = Inr output_years \<Longrightarrow>
   load_snapshots py_str (build_year_inputs pairs) [] = Inr per_year \<Longrightarrow>
   main py_str years pairs tol = Inr (build_timeline per_year output_years tol)"
  by (simp add: main_def)


section \<open>Entries of the timeline\<close>

subsection \<open>A code absent from every output year\<close>



lemma present_years_absent:
  "\<forall>y\<in>set ys. year_row per_year y code = None \<Longrightarrow> present_years per_year ys code = []"
  by (simp add: present_years_def)


lemma year_row_SomeD:
  "year_row per_year y code = Some r \<Longrightarrow>
   \<exists>snap. (y, snap) \<in> set per_year \<and> code \<in> fst ` set snap"
  by (force simp: year_row_def split: option.splits dest: map_of_SomeD)

subsection \<open>Canonical description\<close>

lemma sorted_le_last: "sorted xs \<Longrightarrow> x \<in> set xs \<Longrightarrow> x \<le> (last xs :: int)"
  by (induction xs) (auto split: if_splits)

lemma canonical_desc_alt:
  "canonical_desc per_year ys code =
     (if present_years per_year ys code = [] then []
      else (case year_row per_year (last (present_years per_year ys code)) code of
              None \<Rightarrow> [] | Some r \<Rightarrow> desc r))"
  by (simp add: canonical_desc_def split: list.splits)

lemma canonical_latest:
  assumes "sorted ys" "y \<in> set ys" "year_row per_year y code = Some r"
    and "\<forall>y'\<in>set ys. y < y' \<longrightarrow> year_row per_year y' code = None"
  shows "canonical_desc per_year ys code = desc r"
proof -
  let ?ps = "present_years per_year ys code"
  have yin: "y \<in> set ?ps" using assms(2,3) by (simp add: present_years_def)
  then have ne: "?ps \<noteq> []" by auto
  have "sorted ?ps" using assms(1) by (simp add: present_years_def sorted_filter[where f="\<lambda>x. x", simplified])
  then have le: "y \<le> last ?ps" using yin by (rule sorted_le_last)
  from ne have "last ?ps \<in> set ?ps" by simp
  then have l: "last ?ps \<in> set ys" "year_row per_year (last ?ps) code \<noteq> None"
    by (simp_all add: present_years_def)
  have "last ?ps = y"
  proof (rule ccontr)
    assume "last ?ps \<noteq> y"
    with le have "y < last ?ps" by simp
    with assms(4) l(1) have "year_row per_year (last ?ps) code = None" by blast
    with l(2) show False by simp
  qed
  with ne assms(3) show ?thesis by (simp add: canonical_desc_alt)
qed

subsection \<open>Overrides\<close>

lemma overrides_step:
  "map_of yi x \<noteq> None \<Longrightarrow>
   map_of (desc_overrides (year_step per_year yi code canon tol st x)) y =
     (if x = y \<and> override_of per_year code canon y \<noteq> None
      then override_of per_year code canon y else map_of (desc_overrides st) y)"
  by (auto simp: year_step_def override_of_def update_conv' split: option.splits)

lemma overrides_foldl:
  "\<forall>x\<in>set xs. map_of yi x \<noteq> None \<Longrightarrow>
   map_of (desc_overrides (foldl (year_step per_year yi code canon tol) st xs)) y =
     (if y \<in> set xs \<and> override_of per_year code canon y \<noteq> None
      then override_of per_year code canon y else map_of (desc_overrides st) y)"
proof (induction xs arbitrary: st)
  case Nil
  show ?case by simp
next
  case (Cons x xs)
  then have x: "map_of yi x \<noteq> None" and xs: "\<forall>x\<in>set xs. map_of yi x \<noteq> None" by simp_all
  have "map_of (desc_overrides (foldl (year_step per_year yi code canon tol) st (x # xs))) y =
      (if y \<in> set xs \<and> override_of per_year code canon y \<noteq> None
       then override_of per_year code canon y
       else map_of (desc_overrides (year_step per_year yi code canon tol st x)) y)"
    using Cons.IH[OF xs, of "year_step per_year yi code canon tol st x"] by simp
  also have "\<dots> = (if y \<in> set (x # xs) \<and> override_of per_year code canon y \<noteq> None
       then override_of per_year code canon y else map_of (desc_overrides st) y)"
    by (auto simp: overrides_step[OF x])
  finally show ?case .
qed

lemma years_index_defined:
  "distinct ys \<Longrightarrow> \<forall>x\<in>set ys. map_of (years_index ys) x \<noteq> None"
  by (auto simp: in_set_conv_nth years_index_nth)

lemma code_entry_overrides:
  assumes "distinct ys"
  shows "map_of (e_desc_overrides (code_entry per_year ys tol code)) y =
     (if y \<in> set ys then override_of per_year code (e_desc (code_entry per_year ys tol code)) y else None)"
  using overrides_foldl[OF years_index_defined[OF assms], of per_year code
      "canonical_desc per_year ys code" tol "init_state (length ys)" y]
  by (auto simp: code_entry_def Let_def code_loop_def init_state_def)

subsection \<open>Order of the inputs\<close>

lemma sorted_keys_unique:
  assumes "sorted (map fst xs)" "distinct (map fst xs)" "sorted (map fst ys)" "distinct (map fst ys)"
    and "set xs = set ys"
  shows "xs = (ys :: (int \<times> 'a) list)"
proof -
  have "set (map fst xs) = set (map fst ys)" using assms(5) by simp
  with assms(1-4) have keys: "map fst xs = map fst ys" by (intro sorted_distinct_set_unique)
  from keys have "length (map fst xs) = length (map fst ys)" by simp
  then have len: "length xs = length ys" by simp
  show ?thesis
  proof (rule nth_equalityI[OF len])
    fix i assume i: "i < length xs"
    then have "xs ! i \<in> set xs" by (rule nth_mem)
    then have "xs ! i \<in> set ys" using assms(5) by simp
    then obtain j where j: "j < length ys" "ys ! j = xs ! i" by (auto simp: in_set_conv_nth)
    have "map fst ys ! j = fst (xs ! i)" using j by simp
    also have "\<dots> = map fst xs ! i" using i by simp
    also have "\<dots> = map fst ys ! i" by (simp only: keys)
    finally have e: "map fst ys ! j = map fst ys ! i" .
    have "(map fst ys ! j = map fst ys ! i) = (j = i)"
      using assms(4) by (rule nth_eq_iff_index_eq) (use j i len in simp_all)
    with e have "j = i" by simp
    with j show "xs ! i = ys ! i" by simp
  qed
qed

lemma build_year_inputs_order:
  assumes "distinct (map fst pairs)" "distinct (map fst pairs')" "set pairs' = set pairs"
  shows "build_year_inputs pairs' = build_year_inputs pairs"
proof -
  have d: "distinct (map fst (sort_key fst ps))" if "distinct (map fst ps)" for ps :: "(int \<times> 'a) list"
    using that by (simp add: distinct_map)
  show ?thesis unfolding build_year_inputs_def
    by (rule sorted_keys_unique) (simp_all add: d assms)
qed

lemma main_order:
  assumes "distinct (map fst pairs)" "distinct (map fst pairs')" "set pairs' = set pairs"
  shows "main py_str years pairs' tol = main py_str years pairs tol"
proof -
  have "build_year_inputs pairs' = build_year_inputs pairs"
    using assms by (rule build_year_inputs_order)
  then show ?thesis by (simp only: main_def)
qed

section \<open>Status of a code in a year\<close>




section \<open>The tolerance boundary\<close>



section \<open>A code outside the output years\<close>



section \<open>The canonical description\<close>

text \<open>
  Claim C3, as the code has it. For every code of the output of a run of \<^verbatim>\<open>main\<close>, the
  canonical description is the description of the latest output year that has the code
  (empty when no output year has it), and the override map holds, for exactly the
  output years that have the code with a non-empty description different from a
  non-empty canonical one, that year's description. The output is the same for every
  order of the input pairs when no two pairs are for the same year.
\<close>

theorem canonical_description:
  assumes "parse_year_range years = Inr output_years"
    and "load_snapshots py_str (build_year_inputs pairs) [] = Inr per_year"
  shows "\<exists>t. main py_str years pairs tol = Inr t \<and>
     (\<forall>entry. map_of (codes t) code = Some entry \<longrightarrow>
        (\<forall>y r. y \<in> set output_years \<and> year_row per_year y code = Some r \<and>
               (\<forall>y'\<in>set output_years. y < y' \<longrightarrow> year_row per_year y' code = None) \<longrightarrow>
           e_desc entry = desc r) \<and>
        ((\<forall>y\<in>set output_years. year_row per_year y code = None) \<longrightarrow> e_desc entry = []) \<and>
        (\<forall>y. map_of (e_desc_overrides entry) y =
               (if y \<in> set output_years then override_of per_year code (e_desc entry) y else None))) \<and>
     (\<forall>pairs'. distinct (map fst pairs) \<and> distinct (map fst pairs') \<and> set pairs' = set pairs \<longrightarrow>
        main py_str years pairs' tol = main py_str years pairs tol)"
proof -
  from assms(1) have d: "distinct output_years" and s: "sorted output_years"
    by (simp_all add: parse_year_range_sorted)
  let ?t = "build_timeline per_year output_years tol"
  let ?entry = "code_entry per_year output_years tol code"
  have m: "main py_str years pairs tol = Inr ?t" using assms(1,2) by (rule main_Inr)
  have ed: "e_desc ?entry = canonical_desc per_year output_years code"
    by (simp add: code_entry_def Let_def)
  have a: "\<forall>y r. y \<in> set output_years \<and> year_row per_year y code = Some r \<and>
               (\<forall>y'\<in>set output_years. y < y' \<longrightarrow> year_row per_year y' code = None) \<longrightarrow>
           e_desc ?entry = desc r"
  proof (intro allI impI)
    fix y r
    assume h: "y \<in> set output_years \<and> year_row per_year y code = Some r \<and>
               (\<forall>y'\<in>set output_years. y < y' \<longrightarrow> year_row per_year y' code = None)"
    then have "canonical_desc per_year output_years code = desc r"
      using canonical_latest[OF s, of y per_year code r] by blast
    then show "e_desc ?entry = desc r" by (simp only: ed)
  qed
  have b: "(\<forall>y\<in>set output_years. year_row per_year y code = None) \<longrightarrow> e_desc ?entry = []"
    by (simp add: ed canonical_desc_alt present_years_absent)
  have c: "\<forall>y. map_of (e_desc_overrides ?entry) y =
               (if y \<in> set output_years then override_of per_year code (e_desc ?entry) y else None)"
    using code_entry_overrides[OF d] by blast
  have e: "\<forall>entry. map_of (codes ?t) code = Some entry \<longrightarrow> entry = ?entry"
    by (simp add: codes_lookup)
  have o: "\<forall>pairs'. distinct (map fst pairs) \<and> distinct (map fst pairs') \<and> set pairs' = set pairs \<longrightarrow>
        main py_str years pairs' tol = main py_str years pairs tol"
    using main_order by blast
  from m a b c e o show ?thesis by blast
qed

text \<open>
  The theorem at two years with different wordings, the later year supplied first: the
  canonical description is the wording of 2020, the wording of 2019 is its override, and
  the inputs in the other order give the same output.
\<close>

theorem canonical_description_witness:
  "load_snapshots no_text (build_year_inputs wording_files) [] = Inr wording_example \<and>
   descs_of (main no_text (YearRange 2019 2020) wording_files default_tol) =
     [(''99213'', ''second wording'', [(2019, ''first wording'')])] \<and>
   (\<exists>t entry. main no_text (YearRange 2019 2020) wording_files default_tol = Inr t \<and>
      map_of (codes t) ''99213'' = Some entry \<and>
      e_desc entry = ''second wording'' \<and>
      map_of (e_desc_overrides entry) 2019 = Some ''first wording'' \<and>
      map_of (e_desc_overrides entry) 2020 = None \<and>
      main no_text (YearRange 2019 2020) (rev wording_files) default_tol = Inr t)"
proof -
  let ?ys = "[2019, 2020] :: int list"
  let ?r0 = "rec_of ''first wording'' (Fin 1)"
  let ?r1 = "rec_of ''second wording'' (Fin 1)"
  have p: "parse_year_range (YearRange 2019 2020) = Inr ?ys" by code_simp
  have l: "load_snapshots no_text (build_year_inputs wording_files) [] = Inr wording_example"
    by code_simp
  have s: "descs_of (main no_text (YearRange 2019 2020) wording_files default_tol) =
     [(''99213'', ''second wording'', [(2019, ''first wording'')])]"
    by code_simp
  have y0: "year_row wording_example 2019 ''99213'' = Some ?r0"
    and y1: "year_row wording_example 2020 ''99213'' = Some ?r1"
    by (simp_all add: year_row_def wording_example_def)
  have latest: "2020 \<in> set ?ys \<and> year_row wording_example 2020 ''99213'' = Some ?r1 \<and>
     (\<forall>y'\<in>set ?ys. 2020 < y' \<longrightarrow> year_row wording_example y' ''99213'' = None)"
    using y1 by simp
  have o: "distinct (map fst wording_files) \<and> distinct (map fst (rev wording_files)) \<and>
     set (rev wording_files) = set wording_files"
    by (auto simp: wording_files_def)
  have m: "main no_text (YearRange 2019 2020) wording_files default_tol =
      Inr (build_timeline wording_example ?ys default_tol)"
    using p l by (rule main_Inr)
  have e: "map_of (codes (build_timeline wording_example ?ys default_tol)) ''99213'' =
      Some (code_entry wording_example ?ys default_tol ''99213'')"
    by (simp add: codes_lookup all_codes_def wording_example_def)
  from canonical_description[where years = "YearRange 2019 2020" and output_years = ?ys
      and py_str = no_text and pairs = wording_files and per_year = wording_example
      and code = "''99213''" and tol = default_tol] p l
  obtain t where t: "main no_text (YearRange 2019 2020) wording_files default_tol = Inr t"
    "\<forall>entry. map_of (codes t) ''99213'' = Some entry \<longrightarrow>
        (\<forall>y r. y \<in> set ?ys \<and> year_row wording_example y ''99213'' = Some r \<and>
               (\<forall>y'\<in>set ?ys. y < y' \<longrightarrow> year_row wording_example y' ''99213'' = None) \<longrightarrow>
           e_desc entry = desc r) \<and>
        ((\<forall>y\<in>set ?ys. year_row wording_example y ''99213'' = None) \<longrightarrow> e_desc entry = []) \<and>
        (\<forall>y. map_of (e_desc_overrides entry) y =
               (if y \<in> set ?ys then override_of wording_example ''99213'' (e_desc entry) y else None))"
    "\<forall>pairs'. distinct (map fst wording_files) \<and> distinct (map fst pairs') \<and>
        set pairs' = set wording_files \<longrightarrow>
        main no_text (YearRange 2019 2020) pairs' default_tol =
        main no_text (YearRange 2019 2020) wording_files default_tol"
    by blast
  from t(1) m have "t = build_timeline wording_example ?ys default_tol" by simp
  with e obtain entry where en: "map_of (codes t) ''99213'' = Some entry" by simp
  with t(2) latest have "e_desc entry = desc ?r1" by blast
  then have ed: "e_desc entry = ''second wording''" by (simp add: rec_of_def)
  from t(2) en have ov: "\<forall>y. map_of (e_desc_overrides entry) y =
       (if y \<in> set ?ys then override_of wording_example ''99213'' (e_desc entry) y else None)"
    by blast
  have o0: "map_of (e_desc_overrides entry) 2019 = Some ''first wording''"
    using ov y0 by (simp add: override_of_def ed rec_of_def)
  have o1: "map_of (e_desc_overrides entry) 2020 = None"
    using ov y1 by (simp add: override_of_def ed rec_of_def)
  from t(3) o have "main no_text (YearRange 2019 2020) (rev wording_files) default_tol =
        main no_text (YearRange 2019 2020) wording_files default_tol"
    by blast
  with t(1) have r: "main no_text (YearRange 2019 2020) (rev wording_files) default_tol = Inr t"
    by simp
  from t(1) en ed o0 o1 r have "\<exists>t entry. main no_text (YearRange 2019 2020) wording_files default_tol = Inr t \<and>
      map_of (codes t) ''99213'' = Some entry \<and>
      e_desc entry = ''second wording'' \<and>
      map_of (e_desc_overrides entry) 2019 = Some ''first wording'' \<and>
      map_of (e_desc_overrides entry) 2020 = None \<and>
      main no_text (YearRange 2019 2020) (rev wording_files) default_tol = Inr t"
    by blast
  with l s show ?thesis by blast
qed

text \<open>
  Claim C3 as stated fails twice. A year whose description is empty differs from the
  canonical one but gets no override, since the guard
  \<^verbatim>\<open>if canonical_desc and row_desc and row_desc != canonical_desc\<close> records nothing
  for an empty text. And with two input pairs for the same year the later pair replaces the earlier
  in \<^verbatim>\<open>per_year\<close>, so the canonical description follows the order of the pairs.
\<close>

theorem blank_and_repeated_year_counterexample:
  "load_snapshots no_text (build_year_inputs [(2019, blank_file), (2020, first_file)]) [] =
     Inr blank_example \<and>
   descs_of (main no_text (YearRange 2019 2020) [(2019, blank_file), (2020, first_file)] default_tol) =
     [(''99213'', ''first wording'', [])] \<and>
   descs_of (main no_text (YearRange 2020 2020) [(2020, first_file), (2020, second_file)] default_tol) =
     [(''99213'', ''second wording'', [])] \<and>
   descs_of (main no_text (YearRange 2020 2020) [(2020, second_file), (2020, first_file)] default_tol) =
     [(''99213'', ''first wording'', [])]"
  by code_simp

end
